theory Spec2Isabelle
  imports Complex_Main "HOL-Library.Word" "HOL-Library.Multiset"
begin

section \<open>stereo\_rerender.py: conventions of the embedding\<close>

text \<open>
  The script \<^verbatim>\<open>stereo_rerender.py\<close> turns a video whose pixels carry depth into a
  stereoscopic, VR180 or Touchly video. The embedding follows the script block by block.

  \<^item> 8-bit channels are \<open>8 word\<close>, the 32-bit depth cell is \<open>32 word\<close>.
  \<^item> Floating point values (NumPy \<open>float32\<close>/\<open>float64\<close>, Python \<open>float\<close>) are
    modelled by the real numbers they denote: no rounding, and the values that are not
    numbers (\<open>nan\<close>, \<open>inf\<close>) are written out where the script can produce them.
  \<^item> Python exceptions are values of the type \<open>error\<close>; a computation that can raise
    returns \<open>error + 'a\<close>.
  \<^item> The collaborators that are not part of the script (mesh construction, rendering,
    down-sampling) are parameters of the functions that call them.
\<close>

type_synonym u8 = "8 word"
type_synonym u32 = "32 word"
type_synonym rgb = "u8 \<times> u8 \<times> u8"

datatype error =
  ZeroDivisionError | IndexError | LinAlgError | ValueError | TypeError | AssertionError
  | CvError | NameError

section \<open>Depth decoding (lines 238--243)\<close>

text \<open>
  \<^verbatim>\<open>
  depth = np.zeros((frame_height, frame_width), dtype=np.uint32)
  depth_unit = depth.view(np.uint8).reshape((frame_height, frame_width, 4))
  depth_unit[..., 3] = ((rgb[..., 0].astype(np.uint32) + rgb[..., 1]).astype(np.uint32) / 2)
  depth_unit[..., 2] = rgb[..., 2]
  depth = depth.astype(np.float32)/((255**4)/MODEL_maxOUTPUT_depth)
  \<close>
  The sum of red and green is taken in 32 bits, halved by a true division, and the
  quotient is stored into a byte: the store truncates towards zero. The byte view is
  little-endian, so byte 3 is the most significant byte of the cell.
\<close>

definition trunc :: "real \<Rightarrow> int" where
  "trunc x = (if 0 \<le> x then \<lfloor>x\<rfloor> else \<lceil>x\<rceil>)"

definition f64_to_u8 :: "real \<Rightarrow> u8" where
  "f64_to_u8 x = word_of_int (trunc x)"

definition high_byte :: "u8 \<Rightarrow> u8 \<Rightarrow> u8" where
  "high_byte r g = f64_to_u8 (real (unat ((ucast r :: u32) + ucast g)) / 2)"

text \<open>The 32-bit cell whose bytes, from the least significant one, are \<open>b0 b1 b2 b3\<close>.\<close>

definition u32_of_bytes :: "u8 \<Rightarrow> u8 \<Rightarrow> u8 \<Rightarrow> u8 \<Rightarrow> u32" where
  "u32_of_bytes b0 b1 b2 b3 =
     word_of_nat (unat b0 + 2 ^ 8 * unat b1 + 2 ^ 16 * unat b2 + 2 ^ 24 * unat b3)"

definition depth_bits :: "rgb \<Rightarrow> u32" where
  "depth_bits p = (case p of (r, g, b) \<Rightarrow> u32_of_bytes 0 0 b (high_byte r g))"

text \<open>\<^verbatim>\<open>(255**4)/MODEL_maxOUTPUT_depth\<close>: Python raises on a zero divisor.\<close>

definition depth_scale :: "int \<Rightarrow> error + real" where
  "depth_scale max_depth =
     (if max_depth = 0 then Inl ZeroDivisionError else Inr (255 ^ 4 / real_of_int max_depth))"

definition decode_depth :: "int \<Rightarrow> rgb \<Rightarrow> error + real" where
  "decode_depth max_depth p =
     (case depth_scale max_depth of
        Inl e \<Rightarrow> Inl e
      | Inr s \<Rightarrow> Inr (real (unat (depth_bits p)) / s))"

text \<open>The whole frame: every pixel is decoded with the same scale.\<close>

definition decode_frame :: "int \<Rightarrow> rgb list list \<Rightarrow> error + real list list" where
  "decode_frame max_depth img =
     (case depth_scale max_depth of
        Inl e \<Rightarrow> Inl e
      | Inr s \<Rightarrow> Inr (map (map (\<lambda>p. real (unat (depth_bits p)) / s)) img))"

section \<open>Re-basing the transformations on the lock frame (lines 142--153)\<close>

text \<open>
  \<^verbatim>\<open>
  if args.transformation_lock_frame != 0:
      ref_frame = transformations[args.transformation_lock_frame]
      ref_frame_inv_trans = np.linalg.inv(ref_frame)
      for i, transformation in enumerate(transformations):
          transformations[i] = transformation @ ref_frame_inv_trans
  \<close>
  The transformation file is taken well-formed: a list of 4 by 4 matrices of numbers, which
  the type \<open>mat4\<close> (four rows of four entries) expresses. \<^verbatim>\<open>np.linalg.inv\<close> is
  modelled in exact arithmetic: it raises on a singular matrix and returns the inverse
  otherwise, computed here as the transposed matrix of cofactors over the determinant.
\<close>

datatype vec4 = Vec4 real real real real
datatype mat4 = Mat4 vec4 vec4 vec4 vec4

fun vec_at :: "vec4 \<Rightarrow> nat \<Rightarrow> real" where
  "vec_at (Vec4 a b c d) j = (if j = 0 then a else if j = 1 then b else if j = 2 then c else d)"

fun mat_at :: "mat4 \<Rightarrow> nat \<Rightarrow> nat \<Rightarrow> real" where
  "mat_at (Mat4 r0 r1 r2 r3) i j =
     vec_at (if i = 0 then r0 else if i = 1 then r1 else if i = 2 then r2 else r3) j"

definition mk_vec :: "(nat \<Rightarrow> real) \<Rightarrow> vec4" where
  "mk_vec f = Vec4 (f 0) (f 1) (f 2) (f 3)"

definition mk_mat :: "(nat \<Rightarrow> nat \<Rightarrow> real) \<Rightarrow> mat4" where
  "mk_mat f = Mat4 (mk_vec (f 0)) (mk_vec (f 1)) (mk_vec (f 2)) (mk_vec (f 3))"

definition mat_mul :: "mat4 \<Rightarrow> mat4 \<Rightarrow> mat4" where
  "mat_mul A B = mk_mat (\<lambda>i j. \<Sum>k\<leftarrow>[0, 1, 2, 3]. mat_at A i k * mat_at B k j)"

definition identity4 :: mat4 where
  "identity4 = mk_mat (\<lambda>i j. if i = j then 1 else 0)"

definition skip :: "nat \<Rightarrow> nat list" where
  "skip i = filter (\<lambda>k. k \<noteq> i) [0, 1, 2, 3]"

definition minor_det :: "mat4 \<Rightarrow> nat \<Rightarrow> nat \<Rightarrow> real" where
  "minor_det M i j =
     (case (skip i, skip j) of
        ([a, b, c], [p, q, r]) \<Rightarrow>
          mat_at M a p * (mat_at M b q * mat_at M c r - mat_at M b r * mat_at M c q)
          - mat_at M a q * (mat_at M b p * mat_at M c r - mat_at M b r * mat_at M c p)
          + mat_at M a r * (mat_at M b p * mat_at M c q - mat_at M b q * mat_at M c p)
      | _ \<Rightarrow> 0)"

definition cofactor :: "mat4 \<Rightarrow> nat \<Rightarrow> nat \<Rightarrow> real" where
  "cofactor M i j = (if even (i + j) then minor_det M i j else - minor_det M i j)"

definition det4 :: "mat4 \<Rightarrow> real" where
  "det4 M = (\<Sum>j\<leftarrow>[0, 1, 2, 3]. mat_at M 0 j * cofactor M 0 j)"

definition mat_inv :: "mat4 \<Rightarrow> error + mat4" where
  "mat_inv M =
     (if det4 M = 0 then Inl LinAlgError
      else Inr (mk_mat (\<lambda>i j. cofactor M j i / det4 M)))"

text \<open>Python's list indexing: a negative index counts from the end.\<close>

definition py_index :: "'a list \<Rightarrow> int \<Rightarrow> error + 'a" where
  "py_index xs i =
     (let n = int (length xs); j = (if i < 0 then i + n else i)
      in if 0 \<le> j \<and> j < n then Inr (xs ! nat j) else Inl IndexError)"

function rebase_loop :: "nat \<Rightarrow> mat4 \<Rightarrow> mat4 list \<Rightarrow> mat4 list" where
  "rebase_loop i ref_frame_inv_trans transformations =
     (if i < length transformations
      then rebase_loop (Suc i) ref_frame_inv_trans
             (transformations[i := mat_mul (transformations ! i) ref_frame_inv_trans])
      else transformations)"
  by pat_completeness auto
termination
  by (relation "measure (\<lambda>(i, r, ts). length ts - i)") auto

declare rebase_loop.simps [simp del]

definition rebase_transformations :: "int \<Rightarrow> mat4 list \<Rightarrow> error + mat4 list" where
  "rebase_transformations transformation_lock_frame transformations =
     (if transformation_lock_frame \<noteq> 0
      then (case py_index transformations transformation_lock_frame of
              Inl e \<Rightarrow> Inl e
            | Inr ref_frame \<Rightarrow>
                (case mat_inv ref_frame of
                   Inl e \<Rightarrow> Inl e
                 | Inr ref_frame_inv_trans \<Rightarrow>
                     Inr (rebase_loop 0 ref_frame_inv_trans transformations)))
      else Inr transformations)"

section \<open>Images\<close>

text \<open>
  An image is the list of its rows, from the top; a row is the list of its pixels, from the
  left. \<open>has_size w h\<close> says that an image has \<open>h\<close> rows of \<open>w\<close> pixels each.
\<close>

type_synonym 'a image = "'a list list"

definition height :: "'a image \<Rightarrow> nat" where
  "height img = length img"

definition width :: "'a image \<Rightarrow> nat" where
  "width img = (case img of [] \<Rightarrow> 0 | row # _ \<Rightarrow> length row)"

definition has_size :: "nat \<Rightarrow> nat \<Rightarrow> 'a image \<Rightarrow> bool" where
  "has_size w h img = (length img = h \<and> list_all (\<lambda>row. length row = w) img)"

section \<open>The equirectangular projection (lines 24--85)\<close>

text \<open>
  \<^verbatim>\<open>cv2.remap\<close> with \<^verbatim>\<open>INTER_LINEAR\<close>, \<^verbatim>\<open>BORDER_CONSTANT\<close> and the border value
  \<open>(0, 0, 0)\<close> is modelled in exact arithmetic. The result has the size of the maps; its
  pixel at \<open>(x, y)\<close> is the source sampled at \<open>(map_x[y][x], map_y[y][x])\<close>: the weighted
  mean of the four pixels around that point, a pixel outside the source counting as the
  border value, rounded to the nearest 8-bit value. It raises on an empty source.
  OpenCV quantises the fractional part of the coordinates before it interpolates; the
  model keeps it exact, and both agree at whole coordinates and at \<open>(-1, -1)\<close>.
  \<open>rint\<close> rounds a half to the even neighbour, as \<^verbatim>\<open>np.rint\<close> and OpenCV's
  rounding do.
\<close>

definition black :: rgb where
  "black = (0, 0, 0)"

definition rint :: "real \<Rightarrow> int" where
  "rint x =
     (if x - of_int \<lfloor>x\<rfloor> < 1 / 2 then \<lfloor>x\<rfloor>
      else if 1 / 2 < x - of_int \<lfloor>x\<rfloor> then \<lfloor>x\<rfloor> + 1
      else if even \<lfloor>x\<rfloor> then \<lfloor>x\<rfloor> else \<lfloor>x\<rfloor> + 1)"

definition saturate_u8 :: "real \<Rightarrow> u8" where
  "saturate_u8 v = word_of_int (max 0 (min 255 (rint v)))"

definition channel_at :: "(rgb \<Rightarrow> u8) \<Rightarrow> rgb image \<Rightarrow> int \<Rightarrow> int \<Rightarrow> real" where
  "channel_at ch img x y =
     (if 0 \<le> y \<and> y < int (length img) \<and> 0 \<le> x \<and> x < int (length (img ! nat y))
      then real (unat (ch (img ! nat y ! nat x)))
      else 0)"

definition bilinear :: "(int \<Rightarrow> int \<Rightarrow> real) \<Rightarrow> real \<Rightarrow> real \<Rightarrow> real" where
  "bilinear p mx my =
     (let x0 = \<lfloor>mx\<rfloor>; y0 = \<lfloor>my\<rfloor>; fx = mx - of_int x0; fy = my - of_int y0
      in (1 - fx) * (1 - fy) * p x0 y0 + fx * (1 - fy) * p (x0 + 1) y0
         + (1 - fx) * fy * p x0 (y0 + 1) + fx * fy * p (x0 + 1) (y0 + 1))"

definition remap_pixel :: "rgb image \<Rightarrow> real \<Rightarrow> real \<Rightarrow> rgb" where
  "remap_pixel img mx my =
     (saturate_u8 (bilinear (channel_at fst img) mx my),
      saturate_u8 (bilinear (channel_at (fst \<circ> snd) img) mx my),
      saturate_u8 (bilinear (channel_at (snd \<circ> snd) img) mx my))"

definition remap :: "rgb image \<Rightarrow> real image \<Rightarrow> real image \<Rightarrow> rgb image" where
  "remap img map_x map_y = map (\<lambda>(rx, ry). map (\<lambda>(mx, my). remap_pixel img mx my) (zip rx ry)) (zip map_x map_y)"

text \<open>
  \<^verbatim>\<open>
  cx = (W - 1) / 2.0
  theta = (grid_x - cx) / cx * (np.pi / 2)
  half_input_fov = np.radians(input_fov / 2.0)
  f_x = cx / np.tan(half_input_fov)
  valid_mask = (np.abs(theta) <= half_input_fov) & (np.abs(phi) <= half_input_fov)
  map_x = f_x * np.tan(theta) + cx
  map_x[~valid_mask] = -1
  \<close>
  For an image one pixel wide \<open>cx\<close> is zero and \<open>theta\<close> is \<open>0 / 0\<close>, not a number:
  \<open>angle\<close> returns \<open>None\<close> then, and a comparison with it is false, as NumPy's is.
  The maps are given after the assignment of \<open>-1\<close> to the invalid pixels. They are the
  script's for \<open>0 < input_fov < 180\<close>, where \<open>tan half_input_fov\<close> is a positive number;
  the script calls the function with \<open>render_fov\<close>, which lies in that range.
\<close>

definition center :: "nat \<Rightarrow> real" where
  "center n = (real n - 1) / 2"

definition angle :: "nat \<Rightarrow> nat \<Rightarrow> real option" where
  "angle n x = (if center n = 0 then None else Some ((real x - center n) / center n * (pi / 2)))"

definition half_input_fov :: "real \<Rightarrow> real" where
  "half_input_fov input_fov = (input_fov / 2) * (pi / 180)"

definition within_fov :: "real \<Rightarrow> real option \<Rightarrow> bool" where
  "within_fov input_fov a = (case a of None \<Rightarrow> False | Some t \<Rightarrow> \<bar>t\<bar> \<le> half_input_fov input_fov)"

definition valid_mask :: "nat \<Rightarrow> nat \<Rightarrow> real \<Rightarrow> nat \<Rightarrow> nat \<Rightarrow> bool" where
  "valid_mask W H input_fov x y =
     (within_fov input_fov (angle W x) \<and> within_fov input_fov (angle H y))"

definition map_coord :: "nat \<Rightarrow> real \<Rightarrow> nat \<Rightarrow> real" where
  "map_coord n input_fov x =
     center n / tan (half_input_fov input_fov) * tan ((real x - center n) / center n * (pi / 2))
     + center n"

definition map_x :: "nat \<Rightarrow> nat \<Rightarrow> real \<Rightarrow> real image" where
  "map_x W H input_fov =
     map (\<lambda>y. map (\<lambda>x. if valid_mask W H input_fov x y then map_coord W input_fov x else - 1)
                [0..<W]) [0..<H]"

definition map_y :: "nat \<Rightarrow> nat \<Rightarrow> real \<Rightarrow> real image" where
  "map_y W H input_fov =
     map (\<lambda>y. map (\<lambda>x. if valid_mask W H input_fov x y then map_coord H input_fov y else - 1)
                [0..<W]) [0..<H]"

definition convert_to_equirectangular :: "rgb image \<Rightarrow> real \<Rightarrow> error + rgb image" where
  "convert_to_equirectangular img input_fov =
     (let H = height img; W = width img
      in if H = 0 \<or> W = 0 then Inl CvError
         else Inr (remap img (map_x W H input_fov) (map_y W H input_fov)))"

section \<open>Scenes, collaborators, configuration and state\<close>

text \<open>
  A scene is an Open3D geometry: a triangle mesh or a point cloud. The script reads and
  writes its points (\<^verbatim>\<open>vertices\<close> of a mesh, \<^verbatim>\<open>points\<close> of a cloud) and their colours;
  both kinds are the record \<open>geometry\<close>. \<^verbatim>\<open>translate\<close> adds the offset to every point.

  The functions of \<^verbatim>\<open>depth_map_tools\<close> and the \<^verbatim>\<open>transform\<close> of Open3D are the fields
  of \<open>collaborators\<close>: nothing is assumed about them. \<open>render\<close> returns the colour buffer
  and the depth buffer of a scene, of which a call of the script uses one or both.

  \<open>config\<close> holds the command line after the lines 163--172 (\<open>vr180\<close> is set when
  \<open>touchly0\<close> is). The companion infill-mask stream (\<^verbatim>\<open>--infill_mask\<close>) is left out: the
  runs modelled are those without it.
\<close>

type_synonym vec3 = "real \<times> real \<times> real"

record geometry =
  vertices :: "vec3 list"
  vertex_colors :: "vec3 list"

definition translate :: "vec3 \<Rightarrow> geometry \<Rightarrow> geometry" where
  "translate t g =
     (case t of (tx, ty, tz) \<Rightarrow>
        g\<lparr>vertices := map (\<lambda>(x, y, z). (x + tx, y + ty, z + tz)) (vertices g)\<rparr>)"

record collaborators =
  get_mesh_from_depth_map ::
    "real image \<Rightarrow> rgb image \<Rightarrow> geometry option \<Rightarrow> bool \<Rightarrow> geometry \<times> int list"
  transform :: "mat4 \<Rightarrow> geometry \<Rightarrow> geometry"
  render :: "geometry \<Rightarrow> vec3 image \<times> real image"
  pts_2_pcd :: "vec3 list \<Rightarrow> vec3 list \<Rightarrow> geometry"
  perspective_aware_down_sample :: "geometry \<Rightarrow> real \<Rightarrow> geometry"

record config =
  max_depth :: int
  touchly_max_depth :: real
  pupillary_distance :: int
  max_frames :: int
  touchly1 :: bool
  touchly0 :: bool
  vr180 :: bool
  remove_edges :: bool
  save_background :: bool
  transformations :: "mat4 list option"
  render_fov :: real

section \<open>The persisted background (lines 208--211 and 398--399)\<close>

text \<open>
  \<^verbatim>\<open>
  loaded_bg = np.load(args.load_background)
  bg_points = loaded_bg[0]
  bg_point_colors = loaded_bg[1]
  ...
  np.save(args.depth_video + "_background.npy", np.array([bg_points, bg_point_colors]))
  \<close>
  A \<^verbatim>\<open>.npy\<close> file holds either a numeric array, which is a shape and the values in
  row-major order, or a pickled object array, whose elements are arbitrary objects. The
  arrays of the script have the two elements on the first axis and the points on the
  second (a point or colour being one value here), so the shape is a pair. Two arrays of
  different lengths fit no shape: only an object array can hold them.

  \<^verbatim>\<open>np.load\<close> is called with \<^verbatim>\<open>allow_pickle\<close> at its default \<open>False\<close>: it raises
  \<^verbatim>\<open>ValueError\<close> on an object array, and on a numeric file whose values do not fill the
  shape; otherwise it returns the array, here as the list of its rows. \<^verbatim>\<open>np.array\<close>
  of two arrays stacks them when their shapes agree and raises \<^verbatim>\<open>ValueError\<close> otherwise
  (NumPy 1.24 and later). Files of arrays with a single axis or none, and the archives
  that \<^verbatim>\<open>np.load\<close> also reads, are left out.
\<close>

datatype 'a npy = Numeric nat nat "'a list" | Pickled "'a list list"

definition reshape :: "nat \<Rightarrow> nat \<Rightarrow> 'a list \<Rightarrow> 'a list list" where
  "reshape r c data = map (\<lambda>i. take c (drop (i * c) data)) [0..<r]"

definition np_load :: "'a npy \<Rightarrow> error + 'a list list" where
  "np_load file =
     (case file of
        Pickled _ \<Rightarrow> Inl ValueError
      | Numeric r c data \<Rightarrow>
          if length data = r * c then Inr (reshape r c data) else Inl ValueError)"

definition load_background :: "'a npy \<Rightarrow> error + 'a list \<times> 'a list" where
  "load_background file =
     (case np_load file of
        Inl e \<Rightarrow> Inl e
      | Inr loaded_bg \<Rightarrow>
          (case loaded_bg of
             bg_points # bg_point_colors # _ \<Rightarrow> Inr (bg_points, bg_point_colors)
           | _ \<Rightarrow> Inl IndexError))"

definition save_background_array :: "'a list \<Rightarrow> 'a list \<Rightarrow> error + 'a npy" where
  "save_background_array pts cols =
     (if length pts = length cols then Inr (Numeric 2 (length pts) (pts @ cols))
      else Inl ValueError)"

text \<open>
  The state of the loop. The videos are the lists of the frames still to be read, the
  depth video apart, which is the list the loop runs over; \<open>out\<close> is the list of the
  frames written. \<open>down_sample_calls\<close> records every call of
  \<^verbatim>\<open>perspective_aware_down_sample\<close>: the frame counter and the cell size.
\<close>

record state =
  frame_n :: nat
  last_mesh :: "geometry option"
  bg_points :: "vec3 list"
  bg_point_colors :: "vec3 list"
  bg_cloud :: geometry
  color_video :: "rgb image list option"
  mask_video :: "u8 image list option"
  out :: "rgb image list"
  down_sample_calls :: "(nat \<times> real) list"

section \<open>Background accumulation (lines 272--302)\<close>

text \<open>
  \<^verbatim>\<open>np.unique\<close> sorts and drops repeated neighbours. \<^verbatim>\<open>np.intersect1d\<close> makes both
  arrays unique, sorts their concatenation \<open>aux\<close> and keeps \<open>aux[i]\<close> where
  \<open>aux[i] = aux[i + 1]\<close>. \<^verbatim>\<open>np.where(mask_img1d < 128)[0]\<close> lists the indices of the
  flattened mask below 128. Indexing an array by an index array raises when an index is out
  of range; a negative index counts from the end.
\<close>

definition unique :: "int list \<Rightarrow> int list" where
  "unique ar = remdups_adj (sort ar)"

definition adjacent_equal :: "int list \<Rightarrow> int list" where
  "adjacent_equal aux = map fst (filter (\<lambda>(a, b). a = b) (zip aux (tl aux)))"

definition intersect1d :: "int list \<Rightarrow> int list \<Rightarrow> int list" where
  "intersect1d ar1 ar2 = adjacent_equal (sort (unique ar1 @ unique ar2))"

definition where_below_128 :: "u8 list \<Rightarrow> int list" where
  "where_below_128 m = map int (filter (\<lambda>i. m ! i < 128) [0..<length m])"

definition take_rows :: "'a list \<Rightarrow> int list \<Rightarrow> error + 'a list" where
  "take_rows arr idx =
     (if list_all (\<lambda>i. - int (length arr) \<le> i \<and> i < int (length arr)) idx
      then Inr (map (\<lambda>i. arr ! nat (if i < 0 then i + int (length arr) else i)) idx)
      else Inl IndexError)"

text \<open>The background is loaded only when a mask video is given (line 202).\<close>

definition initial_background ::
  "bool \<Rightarrow> vec3 npy option \<Rightarrow> error + vec3 list \<times> vec3 list" where
  "initial_background mask_given load_file =
     (if mask_given
      then (case load_file of
              None \<Rightarrow> Inr ([], [])
            | Some file \<Rightarrow> load_background file)
      else Inr ([], []))"

text \<open>
  Reading a frame: the script converts what \<^verbatim>\<open>read\<close> returns without looking at the
  flag, and \<^verbatim>\<open>cv2.cvtColor\<close> raises on the \<open>None\<close> of an exhausted video.
\<close>

definition read_frame :: "'a list option \<Rightarrow> error + 'a \<times> 'a list option" where
  "read_frame video =
     (case video of
        Some (f # rest) \<Rightarrow> Inr (f, Some rest)
      | _ \<Rightarrow> Inl CvError)"

text \<open>
  Lines 274--302, in four steps: the candidates of the frame, their concatenation onto the
  cloud, the down-sampling every tenth frame, and the whole.
  \<^verbatim>\<open>
  bg_mask = np.where(mask_img1d < 128)[0]
  points_2_keep = np.intersect1d(used_indices, bg_mask)
  new_points = np.asarray(mesh.vertices)[points_2_keep]
  new_colors = np.asarray(mesh.vertex_colors)[points_2_keep]
  bg_points = np.concatenate((bg_points, new_points), axis=0)
  bg_point_colors = np.concatenate((bg_point_colors, new_colors), axis=0)
  bg_cloud = depth_map_tools.pts_2_pcd(bg_points, bg_point_colors)
  if frame_n % 10 == 0:
      bg_cloud = depth_map_tools.perspective_aware_down_sample(bg_cloud, 0.003)
      bg_points = np.asarray(bg_cloud.points)
      bg_point_colors = np.asarray(bg_cloud.colors)
  \<close>
\<close>

definition background_candidates ::
  "geometry \<Rightarrow> int list \<Rightarrow> u8 image \<Rightarrow> error + vec3 list \<times> vec3 list" where
  "background_candidates mesh used_indices mask_img =
     (let bg_mask = where_below_128 (concat mask_img);
          points_2_keep = intersect1d used_indices bg_mask
      in case take_rows (vertices mesh) points_2_keep of
           Inl e \<Rightarrow> Inl e
         | Inr new_points \<Rightarrow>
             (case take_rows (vertex_colors mesh) points_2_keep of
                Inl e \<Rightarrow> Inl e
              | Inr new_colors \<Rightarrow> Inr (new_points, new_colors)))"

definition append_background ::
  "collaborators \<Rightarrow> vec3 list \<Rightarrow> vec3 list \<Rightarrow> state \<Rightarrow> state" where
  "append_background co new_points new_colors st =
     st\<lparr>bg_points := bg_points st @ new_points,
        bg_point_colors := bg_point_colors st @ new_colors,
        bg_cloud := pts_2_pcd co (bg_points st @ new_points) (bg_point_colors st @ new_colors)\<rparr>"

definition clear_up_pointcloud :: "collaborators \<Rightarrow> state \<Rightarrow> state" where
  "clear_up_pointcloud co st =
     (let small = perspective_aware_down_sample co (bg_cloud st) (3 / 1000)
      in st\<lparr>bg_points := vertices small,
            bg_point_colors := vertex_colors small,
            bg_cloud := small,
            down_sample_calls := down_sample_calls st @ [(frame_n st, 3 / 1000)]\<rparr>)"

definition accumulate ::
  "collaborators \<Rightarrow> geometry \<Rightarrow> int list \<Rightarrow> state \<Rightarrow> error + state" where
  "accumulate co mesh used_indices st =
     (case read_frame (mask_video st) of
        Inl e \<Rightarrow> Inl e
      | Inr (mask_img, rest) \<Rightarrow>
          (case background_candidates mesh used_indices mask_img of
             Inl e \<Rightarrow> Inl e
           | Inr (new_points, new_colors) \<Rightarrow>
               (let st1 = append_background co new_points new_colors (st\<lparr>mask_video := rest\<rparr>)
                in if frame_n st1 mod 10 = 0 then Inr (clear_up_pointcloud co st1) else Inr st1)))"

section \<open>Frame assembly and the loop (lines 217--396)\<close>

text \<open>
  \<^verbatim>\<open>cv2.vconcat\<close> stacks images of one width, \<^verbatim>\<open>cv2.hconcat\<close> joins the rows of images
  of one height; both raise otherwise.
\<close>

definition vconcat :: "'a image \<Rightarrow> 'a image \<Rightarrow> error + 'a image" where
  "vconcat upper lower =
     (if width upper = width lower then Inr (upper @ lower) else Inl CvError)"

definition hconcat :: "'a image list \<Rightarrow> error + 'a image" where
  "hconcat imgs =
     (case imgs of
        [] \<Rightarrow> Inl CvError
      | first # others \<Rightarrow>
          if list_all (\<lambda>img. height img = height first) others
          then Inr (foldl (map2 (@)) first others)
          else Inl CvError)"

text \<open>
  The 8-bit Touchly depth, on the fast path (lines 247--249) and after a render (lines
  322--325 and 355--358):
  \<^verbatim>\<open>
  depth8bit = np.rint(np.minimum(depth, args.touchly_max_depth)*(255/args.touchly_max_depth)).astype(np.uint8)
  touchly_depth8bit[touchly_depth8bit == 0] = 255     # after a render only
  touchly_depth = 255 - touchly_depth
  \<close>
  \<^verbatim>\<open>touchly_max_depth\<close> is a Python float, so the division raises on zero. The colour
  buffer of a render is scaled by 255 and stored in bytes.
\<close>

definition depth_to_8bit :: "real \<Rightarrow> real \<Rightarrow> u8" where
  "depth_to_8bit tmd d = f64_to_u8 (of_int (rint (min d tmd * (255 / tmd))))"

definition grey :: "u8 \<Rightarrow> rgb" where
  "grey v = (v, v, v)"

definition fast_touchly_depth :: "real \<Rightarrow> real image \<Rightarrow> error + rgb image" where
  "fast_touchly_depth tmd depth =
     (if tmd = 0 then Inl ZeroDivisionError
      else Inr (map (map (\<lambda>d. grey (255 - depth_to_8bit tmd d))) depth))"

definition rendered_touchly_depth :: "real \<Rightarrow> real image \<Rightarrow> error + rgb image" where
  "rendered_touchly_depth tmd depth =
     (if tmd = 0 then Inl ZeroDivisionError
      else Inr (map (map (\<lambda>d. let v = depth_to_8bit tmd d
                               in grey (255 - (if v = 0 then 255 else v)))) depth))"

definition color_to_8bit :: "vec3 image \<Rightarrow> rgb image" where
  "color_to_8bit img =
     map (map (\<lambda>(r, g, b). (f64_to_u8 (r * 255), f64_to_u8 (g * 255), f64_to_u8 (b * 255)))) img"

definition fast_path :: "config \<Rightarrow> rgb image \<Rightarrow> real image \<Rightarrow> error + rgb image" where
  "fast_path cfg color_frame depth =
     (case fast_touchly_depth (touchly_max_depth cfg) depth of
        Inl e \<Rightarrow> Inl e
      | Inr touchly_depth \<Rightarrow> vconcat color_frame touchly_depth)"

definition render_touchly1 :: "config \<Rightarrow> collaborators \<Rightarrow> geometry \<Rightarrow> error + rgb image" where
  "render_touchly1 cfg co mesh =
     (case render co mesh of (color_transformed, touchly_depth) \<Rightarrow>
        (case rendered_touchly_depth (touchly_max_depth cfg) touchly_depth of
           Inl e \<Rightarrow> Inl e
         | Inr depth_img \<Rightarrow> vconcat (color_to_8bit color_transformed) depth_img))"

text \<open>
  The stereo path (lines 214--215 and 341--374): shift for the left eye, render, the left
  depth for Touchly 3-in-1, shift back, shift for the right eye, render. The result is the
  list \<^verbatim>\<open>imgs\<close> and the scene as the translations leave it.
\<close>

definition left_shift :: "config \<Rightarrow> real" where
  "left_shift cfg = - (real_of_int (pupillary_distance cfg) / 1000) / 2"

definition right_shift :: "config \<Rightarrow> real" where
  "right_shift cfg = (real_of_int (pupillary_distance cfg) / 1000) / 2"

fun project_all :: "real \<Rightarrow> rgb image list \<Rightarrow> error + rgb image list" where
  "project_all fov [] = Inr []"
| "project_all fov (img # imgs) =
     (case convert_to_equirectangular img fov of
        Inl e \<Rightarrow> Inl e
      | Inr p \<Rightarrow> (case project_all fov imgs of Inl e \<Rightarrow> Inl e | Inr ps \<Rightarrow> Inr (p # ps)))"

definition stereo_views ::
  "config \<Rightarrow> collaborators \<Rightarrow> geometry \<Rightarrow> error + rgb image list \<times> geometry" where
  "stereo_views cfg co mesh =
     (let mesh1 = translate (- left_shift cfg, 0, 0) mesh;
          left_image = color_to_8bit (fst (render co mesh1))
      in case (if touchly0 cfg
               then (case rendered_touchly_depth (touchly_max_depth cfg) (snd (render co mesh1)) of
                       Inl e \<Rightarrow> Inl e
                     | Inr d \<Rightarrow> Inr (Some d))
               else Inr None) of
           Inl e \<Rightarrow> Inl e
         | Inr touchly_left_depth \<Rightarrow>
             (let mesh2 = translate (left_shift cfg, 0, 0) mesh1;
                  mesh3 = translate (- right_shift cfg, 0, 0) mesh2;
                  right_image = color_to_8bit (fst (render co mesh3));
                  imgs = [left_image, right_image]
                         @ (case touchly_left_depth of None \<Rightarrow> [] | Some d \<Rightarrow> [d])
              in Inr (imgs, mesh3)))"

text \<open>
  Lines 376--380: every buffer is projected when VR180 is selected, then the buffers are
  joined side by side.
\<close>

definition render_stereo ::
  "config \<Rightarrow> collaborators \<Rightarrow> geometry \<Rightarrow> error + rgb image \<times> geometry" where
  "render_stereo cfg co mesh =
     (case stereo_views cfg co mesh of
        Inl e \<Rightarrow> Inl e
      | Inr (imgs, mesh') \<Rightarrow>
          (case (if vr180 cfg then project_all (render_fov cfg) imgs else Inr imgs) of
             Inl e \<Rightarrow> Inl e
           | Inr imgs' \<Rightarrow>
               (case hconcat imgs' of Inl e \<Rightarrow> Inl e | Inr out_image \<Rightarrow> Inr (out_image, mesh'))))"

text \<open>
  Lines 393--396: the frame is written, then the frame limit is tested;
  \<^verbatim>\<open>args.max_frames < frame_n and args.max_frames != -1\<close>.
\<close>

definition frame_limit_reached :: "config \<Rightarrow> state \<Rightarrow> bool" where
  "frame_limit_reached cfg st = (max_frames cfg < int (frame_n st) \<and> max_frames cfg \<noteq> - 1)"

definition write_frame :: "config \<Rightarrow> rgb image \<Rightarrow> state \<Rightarrow> bool \<times> state" where
  "write_frame cfg out_image st =
     (let st' = st\<lparr>out := out st @ [out_image]\<rparr> in (frame_limit_reached cfg st', st'))"

text \<open>
  Lines 229--236: the colour frame is read from the colour video when there is one, and
  must have the shape of the depth frame; otherwise it is the depth frame itself.
\<close>

definition read_color_frame :: "rgb image \<Rightarrow> state \<Rightarrow> error + rgb image \<times> state" where
  "read_color_frame rgb_frame st =
     (case color_video st of
        None \<Rightarrow> Inr (rgb_frame, st)
      | Some frames \<Rightarrow>
          (case read_frame (Some frames) of
             Inl e \<Rightarrow> Inl e
           | Inr (color_frame, rest) \<Rightarrow>
               if height color_frame = height rgb_frame \<and> width color_frame = width rgb_frame
               then Inr (color_frame, st\<lparr>color_video := rest\<rparr>)
               else Inl AssertionError))"

text \<open>Lines 260--263: \<^verbatim>\<open>transformations[frame_n-1]\<close>, or no transformation.\<close>

definition transform_to_zero :: "config \<Rightarrow> state \<Rightarrow> error + mat4 option" where
  "transform_to_zero cfg st =
     (case transformations cfg of
        None \<Rightarrow> Inr None
      | Some ts \<Rightarrow>
          (case py_index ts (int (frame_n st) - 1) of Inl e \<Rightarrow> Inl e | Inr T \<Rightarrow> Inr (Some T)))"

text \<open>
  The part of the loop body after the accumulation (lines 306--393). The first argument
  of the renders is the scene: the background cloud when a mask video is given, the mesh
  otherwise. The translations of the stereo path act on that object, so the state keeps
  the scene as they leave it.
\<close>

definition render_and_write ::
  "config \<Rightarrow> collaborators \<Rightarrow> geometry \<Rightarrow> state \<Rightarrow> error + bool \<times> state" where
  "render_and_write cfg co mesh st =
     (if save_background cfg then Inr (frame_limit_reached cfg st, st)
      else if touchly1 cfg
      then (case render_touchly1 cfg co (if mask_video st \<noteq> None then bg_cloud st else mesh) of
              Inl e \<Rightarrow> Inl e
            | Inr out_image \<Rightarrow> Inr (write_frame cfg out_image st))
      else if mask_video st \<noteq> None
      then (case render_stereo cfg co (bg_cloud st) of
              Inl e \<Rightarrow> Inl e
            | Inr (out_image, cloud') \<Rightarrow>
                Inr (write_frame cfg out_image (st\<lparr>bg_cloud := cloud'\<rparr>)))
      else (case render_stereo cfg co mesh of
              Inl e \<Rightarrow> Inl e
            | Inr (out_image, mesh') \<Rightarrow>
                Inr (write_frame cfg out_image (st\<lparr>last_mesh := Some mesh'\<rparr>))))"

text \<open>
  The else branch up to the accumulation (lines 252--304). \<^verbatim>\<open>last_mesh\<close> and
  \<^verbatim>\<open>mesh\<close> are one object, so the hint kept for the next frame is the mesh after
  \<^verbatim>\<open>mesh.transform\<close>.
\<close>

definition full_path ::
  "config \<Rightarrow> collaborators \<Rightarrow> rgb image \<Rightarrow> real image \<Rightarrow> state \<Rightarrow> error + bool \<times> state" where
  "full_path cfg co color_frame depth st =
     (case transform_to_zero cfg st of
        Inl e \<Rightarrow> Inl e
      | Inr T \<Rightarrow>
          (case get_mesh_from_depth_map co depth color_frame (last_mesh st) (remove_edges cfg) of
             (mesh0, used_indices) \<Rightarrow>
               (let mesh = (case T of None \<Rightarrow> mesh0 | Some M \<Rightarrow> transform co M mesh0);
                    st1 = st\<lparr>last_mesh := Some mesh\<rparr>
                in case (if mask_video st1 \<noteq> None then accumulate co mesh used_indices st1
                         else Inr st1) of
                     Inl e \<Rightarrow> Inl e
                   | Inr st2 \<Rightarrow> render_and_write cfg co mesh st2)))"

text \<open>
  The loop body after a frame was read (lines 227--250): colour frame, depth, and the
  choice between the fast path and the else branch.
\<close>

definition process_frame ::
  "config \<Rightarrow> collaborators \<Rightarrow> rgb image \<Rightarrow> state \<Rightarrow> error + bool \<times> state" where
  "process_frame cfg co rgb_frame st =
     (case read_color_frame rgb_frame st of
        Inl e \<Rightarrow> Inl e
      | Inr (color_frame, st1) \<Rightarrow>
          (case decode_frame (max_depth cfg) rgb_frame of
             Inl e \<Rightarrow> Inl e
           | Inr depth \<Rightarrow>
               if transformations cfg = None \<and> touchly1 cfg
               then (case fast_path cfg color_frame depth of
                       Inl e \<Rightarrow> Inl e
                     | Inr out_image \<Rightarrow> Inr (write_frame cfg out_image st1))
               else full_path cfg co color_frame depth st1))"

text \<open>
  The loop: the counter is incremented, then a frame is read; the loop ends when there is
  none, or when the body breaks.
\<close>

fun run :: "config \<Rightarrow> collaborators \<Rightarrow> rgb image list \<Rightarrow> state \<Rightarrow> error + state" where
  "run cfg co [] st = Inr (st\<lparr>frame_n := frame_n st + 1\<rparr>)"
| "run cfg co (raw_frame # raw_video) st =
     (case process_frame cfg co raw_frame (st\<lparr>frame_n := frame_n st + 1\<rparr>) of
        Inl e \<Rightarrow> Inl e
      | Inr (stop, st') \<Rightarrow> if stop then Inr st' else run cfg co raw_video st')"

text \<open>
  The script around the loop. The background is loaded before the first frame is read
  (lines 202--211), the loop starts with the counter at 0 and no mesh hint (lines 217--218),
  and the background is saved after the loop (lines 398--399), where the names
  \<^verbatim>\<open>bg_points\<close> and \<^verbatim>\<open>bg_point_colors\<close> are unbound when no mask video was given.
  The result is the final state and the file written, if any.
\<close>

definition initial_state ::
  "vec3 list \<times> vec3 list \<Rightarrow> rgb image list option \<Rightarrow> u8 image list option \<Rightarrow> state" where
  "initial_state bg color masks =
     \<lparr>frame_n = 0, last_mesh = None, bg_points = fst bg, bg_point_colors = snd bg,
      bg_cloud = \<lparr>vertices = [], vertex_colors = []\<rparr>, color_video = color,
      mask_video = masks, out = [], down_sample_calls = []\<rparr>"

definition main ::
  "config \<Rightarrow> collaborators \<Rightarrow> vec3 npy option \<Rightarrow> rgb image list \<Rightarrow> rgb image list option
     \<Rightarrow> u8 image list option \<Rightarrow> error + state \<times> vec3 npy option" where
  "main cfg co load_file raw_video color masks =
     (case initial_background (masks \<noteq> None) load_file of
        Inl e \<Rightarrow> Inl e
      | Inr bg \<Rightarrow>
          (case run cfg co raw_video (initial_state bg color masks) of
             Inl e \<Rightarrow> Inl e
           | Inr st \<Rightarrow>
               if save_background cfg
               then (if masks = None then Inl NameError
                     else (case save_background_array (bg_points st) (bg_point_colors st) of
                             Inl e \<Rightarrow> Inl e
                           | Inr file \<Rightarrow> Inr (st, Some file)))
               else Inr (st, None)))"

section \<open>Size of the renders and of the written frame (lines 161--183)\<close>

text \<open>
  The size of the renders, the field of view of the render camera and the size given to
  the video writer. \<^verbatim>\<open>max(args.xfov, args.yfov)\<close> raises when one of them is missing.
\<close>

definition render_size :: "config \<Rightarrow> nat \<Rightarrow> nat \<Rightarrow> nat \<times> nat" where
  "render_size cfg frame_width frame_height =
     (if vr180 cfg then (1920, 1920) else (frame_width, frame_height))"

definition out_size :: "config \<Rightarrow> nat \<Rightarrow> nat \<Rightarrow> nat \<times> nat" where
  "out_size cfg out_width out_height =
     (if touchly1 cfg then (out_width, out_height * 2)
      else if touchly0 cfg then (out_width * 3, out_height)
      else (out_width * 2, out_height))"

definition compute_render_fov :: "int option \<Rightarrow> int option \<Rightarrow> error + int" where
  "compute_render_fov xfov yfov =
     (case (xfov, yfov) of
        (Some x, Some y) \<Rightarrow> if 180 \<le> max x y then Inl ValueError else Inr (max 75 (max x y))
      | _ \<Rightarrow> Inl TypeError)"

text \<open>
  Names for the scenes that the two eye renders see, and for the projection applied to
  each buffer when VR180 is selected (lines 376--378).
\<close>

definition left_eye_scene :: "config \<Rightarrow> geometry \<Rightarrow> geometry" where
  "left_eye_scene cfg scene = translate (- left_shift cfg, 0, 0) scene"

definition right_eye_scene :: "config \<Rightarrow> geometry \<Rightarrow> geometry" where
  "right_eye_scene cfg scene =
     translate (- right_shift cfg, 0, 0) (translate (left_shift cfg, 0, 0) (left_eye_scene cfg scene))"

definition eye_buffer :: "config \<Rightarrow> rgb image \<Rightarrow> error + rgb image" where
  "eye_buffer cfg img =
     (if vr180 cfg then convert_to_equirectangular img (render_fov cfg) else Inr img)"

section \<open>Concrete inputs\<close>

text \<open>
  Inputs on which the theorems below are instantiated: two invertible matrices, a grey
  image, a one-pixel depth video with a one-pixel mask together with collaborators that
  build a one-point mesh and down-sample a cloud to its first point, a four-vertex mesh,
  the configurations of the Touchly1 and of the stereo run, and a background file that
  holds two points and one colour.
\<close>

definition scale2 :: mat4 where
  "scale2 = Mat4 (Vec4 2 0 0 0) (Vec4 0 2 0 0) (Vec4 0 0 2 0) (Vec4 0 0 0 1)"

definition shift_x :: mat4 where
  "shift_x = Mat4 (Vec4 1 0 0 3) (Vec4 0 1 0 0) (Vec4 0 0 1 0) (Vec4 0 0 0 1)"

definition grey3 :: "rgb image" where
  "grey3 = [[(9, 9, 9), (9, 9, 9), (9, 9, 9)],
            [(9, 9, 9), (7, 8, 9), (9, 9, 9)],
            [(9, 9, 9), (9, 9, 9), (9, 9, 9)]]"

definition demo_mesh :: geometry where
  "demo_mesh = \<lparr>vertices = [(0, 0, 1)], vertex_colors = [(1, 1, 1)]\<rparr>"

definition demo_collaborators :: collaborators where
  "demo_collaborators =
     \<lparr>get_mesh_from_depth_map = (\<lambda>depth color_frame hint edges. (demo_mesh, [0])),
      transform = (\<lambda>M g. g),
      render = (\<lambda>g. ([[(0, 0, 0)]], [[1]])),
      pts_2_pcd = (\<lambda>ps cs. \<lparr>vertices = ps, vertex_colors = cs\<rparr>),
      perspective_aware_down_sample =
        (\<lambda>g cell. \<lparr>vertices = take 1 (vertices g), vertex_colors = take 1 (vertex_colors g)\<rparr>)\<rparr>"

definition demo_config :: config where
  "demo_config =
     \<lparr>max_depth = 20, touchly_max_depth = 5, pupillary_distance = 63, max_frames = - 1,
      touchly1 = False, touchly0 = False, vr180 = False, remove_edges = False,
      save_background = True, transformations = None, render_fov = 75\<rparr>"

definition demo_frame :: "rgb image" where
  "demo_frame = [[(0, 0, 0)]]"

definition demo_mask :: "u8 image" where
  "demo_mask = [[0]]"

definition demo_state :: "nat \<Rightarrow> u8 image list option \<Rightarrow> state" where
  "demo_state n masks =
     \<lparr>frame_n = n, last_mesh = None, bg_points = [], bg_point_colors = [],
      bg_cloud = \<lparr>vertices = [], vertex_colors = []\<rparr>, color_video = None,
      mask_video = masks, out = [], down_sample_calls = []\<rparr>"

definition demo_video :: "rgb image list" where
  "demo_video = [demo_frame, demo_frame, demo_frame, demo_frame, demo_frame, demo_frame,
                 demo_frame, demo_frame, demo_frame, demo_frame, demo_frame]"

definition demo_masks :: "u8 image list" where
  "demo_masks = [demo_mask, demo_mask, demo_mask, demo_mask, demo_mask, demo_mask,
                 demo_mask, demo_mask, demo_mask, demo_mask, demo_mask]"

definition demo_final :: state where
  "demo_final =
     \<lparr>frame_n = 12, last_mesh = Some demo_mesh,
      bg_points = [(0, 0, 1), (0, 0, 1)], bg_point_colors = [(1, 1, 1), (1, 1, 1)],
      bg_cloud = \<lparr>vertices = [(0, 0, 1), (0, 0, 1)], vertex_colors = [(1, 1, 1), (1, 1, 1)]\<rparr>,
      color_video = None, mask_video = Some [], out = [],
      down_sample_calls = [(10, 3 / 1000)]\<rparr>"

definition quad_mesh :: geometry where
  "quad_mesh = \<lparr>vertices = [(0, 0, 1), (1, 0, 1), (0, 1, 1), (1, 1, 1)],
                 vertex_colors = [(1, 0, 0), (0, 1, 0), (0, 0, 1), (1, 1, 1)]\<rparr>"

definition quad_mask :: "u8 image" where
  "quad_mask = [[0, 200], [5, 130]]"

definition touchly1_config :: config where
  "touchly1_config = demo_config\<lparr>touchly1 := True, save_background := False\<rparr>"

definition touchly1_final :: state where
  "touchly1_final =
     \<lparr>frame_n = 3, last_mesh = None, bg_points = [], bg_point_colors = [],
      bg_cloud = \<lparr>vertices = [], vertex_colors = []\<rparr>, color_video = None,
      mask_video = Some [demo_mask, demo_mask],
      out = [[[(0, 0, 0)], [(255, 255, 255)]], [[(0, 0, 0)], [(255, 255, 255)]]],
      down_sample_calls = []\<rparr>"

definition stereo_config :: config where
  "stereo_config = demo_config\<lparr>save_background := False\<rparr>"

definition ragged_artifact :: "vec3 npy" where
  "ragged_artifact = Pickled [[(0, 0, 1), (0, 0, 2)], [(1, 1, 1)]]"

section \<open>Facts about the depth decoder\<close>

lemma unat_u8_bound: "unat (x :: u8) \<le> 255"
proof -
  have "unat x < 2 ^ 8"
    using unsigned_less [of x, where ?'a = nat] by simp
  then show ?thesis by simp
qed

lemma unat_ucast_u8_u32: "unat (ucast (r :: u8) :: u32) = unat r"
proof -
  have "unat r < 2 ^ 32"
    using unat_u8_bound [of r] by simp
  then show ?thesis
    by (simp add: unsigned_ucast_eq take_bit_nat_eq_self)
qed

lemma unat_sum_u32: "unat ((ucast (r :: u8) :: u32) + ucast (g :: u8)) = unat r + unat g"
proof -
  have "unat r + unat g < 2 ^ 32"
    using unat_u8_bound [of r] unat_u8_bound [of g] by simp
  then show ?thesis
    by (simp add: unat_word_ariths unat_ucast_u8_u32)
qed

lemma trunc_half: "trunc (real n / 2) = int (n div 2)"
proof -
  have "\<lfloor>real n / real 2\<rfloor> = int (n div 2)"
    by (rule floor_divide_of_nat_eq)
  then show ?thesis
    by (simp add: trunc_def)
qed

lemma high_byte_div: "high_byte r g = word_of_nat ((unat r + unat g) div 2)"
  by (simp only: high_byte_def f64_to_u8_def unat_sum_u32 trunc_half of_int_of_nat_eq)

lemma unat_high_byte: "unat (high_byte r g) = (unat r + unat g) div 2"
proof -
  have "(unat r + unat g) div 2 < 2 ^ 8"
    using unat_u8_bound [of r] unat_u8_bound [of g] by simp
  then show ?thesis
    by (simp add: high_byte_div unat_of_nat)
qed

lemma unat_depth_bits:
  "unat (depth_bits (r, g, b)) = 2 ^ 24 * ((unat r + unat g) div 2) + 2 ^ 16 * unat b"
proof -
  define n where "n = 2 ^ 16 * unat b + 2 ^ 24 * unat (high_byte r g)"
  have "n < 2 ^ 32"
    using unat_u8_bound [of b] unat_u8_bound [of "high_byte r g"] by (simp add: n_def)
  moreover have "depth_bits (r, g, b) = word_of_nat n"
    by (simp add: depth_bits_def u32_of_bytes_def n_def)
  ultimately have "unat (depth_bits (r, g, b)) = n"
    by (simp only: unat_of_nat) simp
  then show ?thesis
    by (simp add: n_def unat_high_byte)
qed

lemma decode_depth_value:
  "md \<noteq> 0 \<Longrightarrow>
   decode_depth md (r, g, b) =
     Inr (real (2 ^ 16 * (256 * ((unat r + unat g) div 2) + unat b)) * real_of_int md
          / 4228250625)"
  by (simp add: decode_depth_def depth_scale_def unat_depth_bits)

text \<open>The loop decodes whole frames; each entry is the decoded pixel.\<close>

lemma decode_frame_pixel:
  assumes "decode_frame md img = Inr depth" "y < length img" "x < length (img ! y)"
  shows "decode_depth md (img ! y ! x) = Inr (depth ! y ! x)"
  using assms by (auto simp: decode_frame_def decode_depth_def split: sum.splits)

subsection \<open>Range of the decoded depth\<close>

text \<open>
  Claim C1, as the code has it. For a pixel \<open>(r, g, b)\<close> and \<open>max_depth > 0\<close> the decoder
  returns a depth \<open>d\<close> with \<open>0 \<le> d \<le> max_depth \<cdot> (2^32 - 2^16) / 255^4\<close>: the cell holds
  \<open>2^16 \<cdot> (256 \<cdot> ((r + g) div 2) + b)\<close>, which can exceed the divisor's \<open>255^4\<close>. The depth
  is at most \<open>max_depth\<close> exactly when \<open>256 \<cdot> ((r + g) div 2) + b \<le> 64517\<close>.
\<close>

theorem decode_depth_range:
  assumes "0 < md"
  shows "\<exists>d. decode_depth md (r, g, b) = Inr d \<and> 0 \<le> d
           \<and> d \<le> real_of_int md * (4294901760 / 4228250625)
           \<and> (d \<le> real_of_int md
                \<longleftrightarrow> 256 * ((unat r + unat g) div 2) + unat b \<le> 64517)"
proof -
  define k where "k = 256 * ((unat r + unat g) div 2) + unat b"
  define d where "d = real (2 ^ 16 * k) * real_of_int md / 4228250625"
  have md: "0 < real_of_int md" using assms by simp
  have k: "k \<le> 65535"
    using unat_u8_bound [of r] unat_u8_bound [of g] unat_u8_bound [of b] by (simp add: k_def)
  have dec: "decode_depth md (r, g, b) = Inr d"
    using assms by (simp add: decode_depth_value d_def k_def)
  have nonneg: "0 \<le> d"
    using md by (simp add: d_def)
  have "real (2 ^ 16 * k) \<le> 4294901760"
    using k by simp
  then have "real (2 ^ 16 * k) * real_of_int md \<le> 4294901760 * real_of_int md"
    using md by (simp add: mult_right_mono)
  then have upper: "d \<le> real_of_int md * (4294901760 / 4228250625)"
    by (simp add: d_def)
  have "d \<le> real_of_int md \<longleftrightarrow> real (2 ^ 16 * k) \<le> 4228250625"
    using md by (simp add: d_def field_simps)
  also have "\<dots> \<longleftrightarrow> 2 ^ 16 * k \<le> (4228250625::nat)"
    by (metis of_nat_le_iff of_nat_numeral)
  also have "\<dots> \<longleftrightarrow> 65536 * k \<le> (4228250625::nat)"
    by simp
  also have "\<dots> \<longleftrightarrow> k \<le> 64517"
    by arith
  finally have iff: "d \<le> real_of_int md \<longleftrightarrow> k \<le> 64517" .
  show ?thesis
    using dec nonneg upper iff unfolding k_def by blast
qed

theorem decode_depth_range_witness:
  "(0::int) < 20 \<and> decode_depth 20 (252, 252, 5) = Inr (4228186112 * 20 / 4228250625)
     \<and> (4228186112 * 20 / 4228250625 :: real) \<le> 20"
  using decode_depth_range [of 20 252 252 5]
  by (simp add: decode_depth_def depth_scale_def depth_bits_def u32_of_bytes_def high_byte_def
      f64_to_u8_def trunc_def)

text \<open>
  Claim C1 as stated fails: the white pixel decodes, with \<open>max_depth = 20\<close>, to
  \<open>67371008 / 3316275\<close> (about 20.3153), which lies above \<open>max_depth\<close>.
\<close>

theorem decode_depth_white_exceeds_max:
  "decode_depth 20 (255, 255, 255) = Inr (67371008 / 3316275)
     \<and> (20::real) < 67371008 / 3316275"
  by (simp add: decode_depth_def depth_scale_def depth_bits_def u32_of_bytes_def high_byte_def
      f64_to_u8_def trunc_def)

subsection \<open>What the decoded depth depends on\<close>

text \<open>
  Claim C9. The decoded depth is a function of the integer average \<open>(r + g) div 2\<close> and of
  the blue channel only: two pixels that agree on both decode to the same result, whatever
  \<open>max_depth\<close> is (the same error when it is zero).
\<close>

theorem decode_depth_depends_on_average_and_blue:
  assumes "(unat r1 + unat g1) div 2 = (unat r2 + unat g2) div 2" and "b1 = b2"
  shows "decode_depth md (r1, g1, b1) = decode_depth md (r2, g2, b2)"
proof -
  have "high_byte r1 g1 = high_byte r2 g2"
    using assms(1) by (simp add: high_byte_div)
  then have "depth_bits (r1, g1, b1) = depth_bits (r2, g2, b2)"
    using assms(2) by (simp add: depth_bits_def)
  then show ?thesis
    by (simp only: decode_depth_def)
qed

theorem decode_depth_depends_on_average_and_blue_witness:
  "(unat (10::u8) + unat (21::u8)) div 2 = (unat (11::u8) + unat (20::u8)) div 2
     \<and> decode_depth 20 (10, 21, 7) = decode_depth 20 (11, 20, 7)
     \<and> decode_depth 20 (10, 21, 7) = Inr (252116992 * 20 / 4228250625)"
  using decode_depth_depends_on_average_and_blue [of 10 21 11 20 7 7 20]
  by (simp add: decode_depth_def depth_scale_def depth_bits_def u32_of_bytes_def high_byte_def
      f64_to_u8_def trunc_def)

section \<open>Facts about the re-basing on the lock frame\<close>

subsection \<open>The modelled inverse is the inverse\<close>

lemma lt4_cases: "i < 4 \<Longrightarrow> i = 0 \<or> i = 1 \<or> i = 2 \<or> i = (3::nat)"
  by arith

lemma mk_mat_cong:
  "(\<And>i j. i < 4 \<Longrightarrow> j < 4 \<Longrightarrow> f i j = g i j) \<Longrightarrow> mk_mat f = mk_mat g"
  by (simp add: mk_mat_def mk_vec_def)

lemma mat_at_mk_mat: "i < 4 \<Longrightarrow> j < 4 \<Longrightarrow> mat_at (mk_mat f) i j = f i j"
  using lt4_cases [of i] lt4_cases [of j] by (auto simp: mk_mat_def mk_vec_def)

lemma laplace_row:
  assumes "i < 4" and "j < 4"
  shows "(\<Sum>k\<leftarrow>[0, 1, 2, 3]. mat_at M i k * cofactor M j k) = (if i = j then det4 M else 0)"
proof -
  obtain a0 a1 a2 a3 b0 b1 b2 b3 c0 c1 c2 c3 d0 d1 d2 d3 where
    M: "M = Mat4 (Vec4 a0 a1 a2 a3) (Vec4 b0 b1 b2 b3) (Vec4 c0 c1 c2 c3) (Vec4 d0 d1 d2 d3)"
    by (metis mat4.exhaust vec4.exhaust)
  show ?thesis
    using lt4_cases [OF assms(1)] lt4_cases [OF assms(2)] unfolding M
    by (elim disjE; simp add: det4_def cofactor_def minor_det_def skip_def algebra_simps)
qed

lemma mat_mul_inv_right:
  assumes "mat_inv M = Inr R"
  shows "mat_mul M R = identity4"
proof -
  have nz: "det4 M \<noteq> 0" and R: "R = mk_mat (\<lambda>i j. cofactor M j i / det4 M)"
    using assms by (auto simp: mat_inv_def split: if_splits)
  have "(\<Sum>k\<leftarrow>[0, 1, 2, 3]. mat_at M i k * mat_at R k j) = (if i = j then 1 else 0)"
    if "i < 4" and "j < 4" for i j
  proof -
    have "(\<Sum>k\<leftarrow>[0, 1, 2, 3]. mat_at M i k * mat_at R k j)
            = (\<Sum>k\<leftarrow>[0, 1, 2, 3]. mat_at M i k * cofactor M j k) / det4 M"
      using that by (simp add: R mat_at_mk_mat add_divide_distrib)
    also have "\<dots> = (if i = j then 1 else 0)"
      using nz by (simp only: laplace_row [OF that]) simp
    finally show ?thesis .
  qed
  then show ?thesis
    unfolding mat_mul_def identity4_def by (rule mk_mat_cong)
qed

lemma laplace_col:
  assumes "i < 4" and "j < 4"
  shows "(\<Sum>k\<leftarrow>[0, 1, 2, 3]. cofactor M k i * mat_at M k j) = (if i = j then det4 M else 0)"
proof -
  obtain a0 a1 a2 a3 b0 b1 b2 b3 c0 c1 c2 c3 d0 d1 d2 d3 where
    M: "M = Mat4 (Vec4 a0 a1 a2 a3) (Vec4 b0 b1 b2 b3) (Vec4 c0 c1 c2 c3) (Vec4 d0 d1 d2 d3)"
    by (metis mat4.exhaust vec4.exhaust)
  show ?thesis
    using lt4_cases [OF assms(1)] lt4_cases [OF assms(2)] unfolding M
    by (elim disjE; simp add: det4_def cofactor_def minor_det_def skip_def algebra_simps)
qed

lemma mat_mul_inv_left:
  assumes "mat_inv M = Inr R"
  shows "mat_mul R M = identity4"
proof -
  have nz: "det4 M \<noteq> 0" and R: "R = mk_mat (\<lambda>i j. cofactor M j i / det4 M)"
    using assms by (auto simp: mat_inv_def split: if_splits)
  have "(\<Sum>k\<leftarrow>[0, 1, 2, 3]. mat_at R i k * mat_at M k j) = (if i = j then 1 else 0)"
    if "i < 4" and "j < 4" for i j
  proof -
    have "(\<Sum>k\<leftarrow>[0, 1, 2, 3]. mat_at R i k * mat_at M k j)
            = (\<Sum>k\<leftarrow>[0, 1, 2, 3]. cofactor M k i * mat_at M k j) / det4 M"
      using that by (simp add: R mat_at_mk_mat add_divide_distrib)
    also have "\<dots> = (if i = j then 1 else 0)"
      using nz by (simp only: laplace_col [OF that]) simp
    finally show ?thesis .
  qed
  then show ?thesis
    unfolding mat_mul_def identity4_def by (rule mk_mat_cong)
qed

subsection \<open>The loop is a map\<close>

lemma rebase_loop_eq:
  "rebase_loop i r ts = take i ts @ map (\<lambda>T. mat_mul T r) (drop i ts)"
proof (induction i r ts rule: rebase_loop.induct)
  case (1 i r ts)
  show ?case
  proof (cases "i < length ts")
    case True
    have "rebase_loop i r ts = rebase_loop (Suc i) r (ts[i := mat_mul (ts ! i) r])"
      using True by (subst rebase_loop.simps) simp
    also have "\<dots> = take (Suc i) (ts[i := mat_mul (ts ! i) r])
                       @ map (\<lambda>T. mat_mul T r) (drop (Suc i) (ts[i := mat_mul (ts ! i) r]))"
      using True by (rule "1.IH")
    also have "\<dots> = take i ts @ [mat_mul (ts ! i) r] @ map (\<lambda>T. mat_mul T r) (drop (Suc i) ts)"
      using True by (simp add: take_Suc_conv_app_nth)
    also have "\<dots> = take i ts @ map (\<lambda>T. mat_mul T r) (drop i ts)"
      using True by (simp add: Cons_nth_drop_Suc [symmetric])
    finally show ?thesis .
  next
    case False
    then show ?thesis by (subst rebase_loop.simps) simp
  qed
qed

lemma py_index_map:
  "py_index xs i = Inr x \<Longrightarrow> py_index (map f xs) i = Inr (f x)"
  by (auto simp: py_index_def Let_def split: if_splits)

lemma det4_scale2: "det4 scale2 = 8"
  by (simp add: scale2_def det4_def cofactor_def minor_det_def skip_def)

subsection \<open>The lock frame becomes the identity\<close>

text \<open>
  Claim C3, as the code has it. For a lock-frame index \<open>L \<noteq> 0\<close> that selects a matrix
  \<open>T_lock\<close> of the list (a negative \<open>L\<close> counts from the end) with a non-zero determinant,
  the re-basing returns the list in which every matrix \<open>T\<close> is replaced by
  \<open>T \<cdot> inverse T_lock\<close>, and the matrix at index \<open>L\<close> of the result is the identity.
\<close>

theorem rebase_transformations_correct:
  assumes "L \<noteq> 0" and "py_index ts L = Inr T_lock" and "det4 T_lock \<noteq> 0"
  shows "\<exists>R. mat_inv T_lock = Inr R
           \<and> mat_mul T_lock R = identity4 \<and> mat_mul R T_lock = identity4
           \<and> rebase_transformations L ts = Inr (map (\<lambda>T. mat_mul T R) ts)
           \<and> py_index (map (\<lambda>T. mat_mul T R) ts) L = Inr identity4"
proof -
  obtain R where R: "mat_inv T_lock = Inr R"
    using assms(3) by (simp add: mat_inv_def)
  have "rebase_transformations L ts = Inr (map (\<lambda>T. mat_mul T R) ts)"
    using assms(1,2) R by (simp add: rebase_transformations_def rebase_loop_eq)
  moreover have "py_index (map (\<lambda>T. mat_mul T R) ts) L = Inr identity4"
    using py_index_map [OF assms(2), of "\<lambda>T. mat_mul T R"] mat_mul_inv_right [OF R] by simp
  ultimately show ?thesis
    using R mat_mul_inv_right [OF R] mat_mul_inv_left [OF R] by blast
qed

theorem rebase_transformations_correct_witness:
  "(1::int) \<noteq> 0 \<and> py_index [shift_x, scale2] 1 = Inr scale2 \<and> det4 scale2 \<noteq> 0
   \<and> rebase_transformations 1 [shift_x, scale2]
       = Inr [Mat4 (Vec4 (1/2) 0 0 3) (Vec4 0 (1/2) 0 0) (Vec4 0 0 (1/2) 0) (Vec4 0 0 0 1), identity4]"
proof -
  have a: "py_index [shift_x, scale2] 1 = Inr scale2"
    by (simp add: py_index_def)
  have b: "det4 scale2 \<noteq> 0"
    by (simp add: det4_scale2)
  have c: "mat_inv scale2 = Inr (Mat4 (Vec4 (1/2) 0 0 0) (Vec4 0 (1/2) 0 0) (Vec4 0 0 (1/2) 0) (Vec4 0 0 0 1))"
    by (simp add: mat_inv_def det4_scale2) (simp add: scale2_def mk_mat_def mk_vec_def cofactor_def minor_det_def skip_def)
  from rebase_transformations_correct [of 1 "[shift_x, scale2]" scale2, OF _ a b]
  show ?thesis
    using a b c
    by (simp) (simp add: mat_mul_def mk_mat_def mk_vec_def shift_x_def identity4_def)
qed

text \<open>With the lock frame 0 the guard skips the re-basing, whatever the list.\<close>

lemma rebase_transformations_lock_frame_zero: "rebase_transformations 0 ts = Inr ts"
  by (simp add: rebase_transformations_def)

text \<open>
  Claim C3 as stated fails at the lock-frame index 0: the guard skips the re-basing, the
  list stays as it was read, and its matrix at index 0 is not the identity.
\<close>

theorem rebase_lock_frame_zero_counterexample:
  "rebase_transformations 0 [scale2, shift_x] = Inr [scale2, shift_x]
   \<and> py_index [scale2, shift_x] 0 = Inr scale2 \<and> scale2 \<noteq> identity4 \<and> det4 scale2 = 8
   \<and> det4 shift_x = 1"
  by (simp add: rebase_transformations_def py_index_def scale2_def shift_x_def identity4_def
      mk_mat_def mk_vec_def det4_def cofactor_def minor_det_def skip_def)

section \<open>Facts about the equirectangular projection\<close>

lemma remap_pixel_border: "remap_pixel img (- 1) (- 1) = black"
  by (simp add: remap_pixel_def bilinear_def channel_at_def saturate_u8_def rint_def black_def)

lemma remap_nth:
  assumes "y < length mx" "length my = length mx" "x < length (mx ! y)" "length (my ! y) = length (mx ! y)"
  shows "remap img mx my ! y ! x = remap_pixel img (mx ! y ! x) (my ! y ! x)"
  using assms by (simp add: remap_def)

lemma has_size_remap:
  "has_size w h mx \<Longrightarrow> has_size w h my \<Longrightarrow> has_size w h (remap img mx my)"
  by (auto simp: has_size_def remap_def list_all_iff set_zip)

lemma has_size_map_x: "has_size W H (map_x W H fov)"
  by (simp add: has_size_def map_x_def list_all_iff)

lemma has_size_map_y: "has_size W H (map_y W H fov)"
  by (simp add: has_size_def map_y_def list_all_iff)

lemma abs_rad_deg: "\<bar>t * (pi / 2)\<bar> = \<bar>t * 90\<bar> * (pi / 180)" for t :: real
proof -
  have "t * (pi / 2) = (t * 90) * (pi / 180)"
    by simp
  then show ?thesis
    by (simp only: abs_mult) simp
qed

lemma le_rad_deg: "(a * (pi / 180) \<le> (fov / 2) * (pi / 180)) = (a \<le> fov / 2)" for a :: real
  using pi_gt_zero by (simp add: field_simps)

lemma within_fov_deg:
  "within_fov fov (angle n x) \<longleftrightarrow>
     center n \<noteq> 0 \<and> \<bar>(real x - center n) / center n * 90\<bar> \<le> fov / 2"
proof (cases "center n = 0")
  case True
  then show ?thesis by (simp add: within_fov_def angle_def)
next
  case False
  then show ?thesis
    by (simp only: within_fov_def angle_def half_input_fov_def if_False option.case
        abs_rad_deg le_rad_deg simp_thms)
qed

lemma has_size_dims:
  assumes "has_size W H img" and "0 < H"
  shows "height img = H" and "width img = W"
proof -
  show "height img = H"
    using assms by (simp add: has_size_def height_def)
  obtain row rest where "img = row # rest"
    using assms by (cases img) (auto simp: has_size_def)
  then show "width img = W"
    using assms by (simp add: has_size_def width_def)
qed

lemma valid_mask_deg:
  "valid_mask W H fov x y \<longleftrightarrow>
     center W \<noteq> 0 \<and> center H \<noteq> 0
     \<and> \<bar>(real x - center W) / center W * 90\<bar> \<le> fov / 2
     \<and> \<bar>(real y - center H) / center H * 90\<bar> \<le> fov / 2"
  by (auto simp: valid_mask_def within_fov_deg)

lemma equirect_pixel:
  assumes "y < H" and "x < W"
  shows "remap img (map_x W H fov) (map_y W H fov) ! y ! x =
           (if valid_mask W H fov x y
            then remap_pixel img (map_coord W fov x) (map_coord H fov y)
            else black)"
proof -
  have "remap img (map_x W H fov) (map_y W H fov) ! y ! x =
          remap_pixel img (map_x W H fov ! y ! x) (map_y W H fov ! y ! x)"
    using assms by (intro remap_nth) (simp_all add: map_x_def map_y_def)
  also have "\<dots> = (if valid_mask W H fov x y
                      then remap_pixel img (map_coord W fov x) (map_coord H fov y)
                      else black)"
    using assms by (simp add: map_x_def map_y_def remap_pixel_border)
  finally show ?thesis .
qed

lemma half_input_fov_range:
  assumes "0 < fov" and "fov < 180"
  shows "0 < half_input_fov fov" and "half_input_fov fov < pi / 2"
  using assms pi_gt_zero by (simp_all add: half_input_fov_def field_simps)

lemma tan_abs_le:
  fixes t h :: real
  assumes "\<bar>t\<bar> \<le> h" and "h < pi / 2"
  shows "\<bar>tan t\<bar> \<le> tan h"
proof -
  have "tan t \<le> tan h"
    using assms by (intro tan_mono_le) auto
  moreover have "tan (- h) \<le> tan t"
    using assms by (intro tan_mono_le) auto
  ultimately show ?thesis
    by (simp add: abs_le_iff)
qed

lemma map_coord_range:
  assumes fov: "0 < fov" "fov < 180" and n: "0 < n" and v: "within_fov fov (angle n x)"
  shows "0 \<le> map_coord n fov x" and "map_coord n fov x \<le> real n - 1"
proof -
  let ?c = "center n" and ?h = "half_input_fov fov"
  let ?t = "(real x - ?c) / ?c * (pi / 2)"
  from v have c0: "?c \<noteq> 0" and t: "\<bar>?t\<bar> \<le> ?h"
    by (auto simp: within_fov_def angle_def split: if_splits)
  have h: "0 < ?h" "?h < pi / 2"
    using half_input_fov_range [OF fov] by simp_all
  have th: "0 < tan ?h"
    using h by (intro tan_gt_zero)
  have "\<bar>tan ?t\<bar> \<le> tan ?h"
    using t h(2) by (rule tan_abs_le)
  then have q': "\<bar>tan ?t / tan ?h\<bar> \<le> 1"
    using th by (simp add: field_simps)
  define Q where "Q = tan ?t / tan ?h"
  have q: "\<bar>Q\<bar> \<le> 1"
    using q' by (simp only: Q_def)
  have cpos: "0 < ?c"
    using c0 n by (simp add: center_def)
  have eq: "map_coord n fov x = ?c * Q + ?c"
    by (simp add: map_coord_def Q_def)
  have "\<bar>?c * Q\<bar> = ?c * \<bar>Q\<bar>"
    using cpos by (simp add: abs_mult)
  also have "\<dots> \<le> ?c * 1"
    using q cpos by (intro mult_left_mono) simp_all
  finally have b: "- ?c \<le> ?c * Q" "?c * Q \<le> ?c"
    by (simp_all add: abs_le_iff)
  have c2: "?c + ?c = real n - 1"
    by (simp add: center_def)
  show "0 \<le> map_coord n fov x"
    using b(1) eq by linarith
  show "map_coord n fov x \<le> real n - 1"
    using b(2) eq c2 by linarith
qed

lemma rint_nat: "rint (real n) = int n"
  by (simp add: rint_def)

lemma saturate_u8_nat: "n \<le> 255 \<Longrightarrow> saturate_u8 (real n) = word_of_nat n"
  by (simp add: saturate_u8_def rint_nat)

lemma saturate_u8_unat: "saturate_u8 (unsigned (w :: u8)) = w"
  using saturate_u8_nat [OF unat_u8_bound, of w] by simp

lemma bilinear_integer: "bilinear p (real i) (real j) = p (int i) (int j)"
  by (simp add: bilinear_def)

lemma remap_pixel_integer:
  assumes "j < length img" and "i < length (img ! j)"
  shows "remap_pixel img (real i) (real j) = img ! j ! i"
proof -
  obtain r g b where px: "img ! j ! i = (r, g, b)"
    by (cases "img ! j ! i")
  show ?thesis
    using assms by (simp add: remap_pixel_def bilinear_integer channel_at_def px saturate_u8_unat)
qed

lemma map_coord_center:
  assumes "real x = center n"
  shows "map_coord n fov x = real x"
  using assms by (simp add: map_coord_def)

lemma valid_mask_center:
  assumes "0 < fov" and "real x = center W" and "real y = center H" and "1 < W" and "1 < H"
  shows "valid_mask W H fov x y"
proof -
  have "center W \<noteq> 0" "center H \<noteq> 0"
    using assms(4,5) by (simp_all add: center_def)
  then show ?thesis
    using assms(1,2,3) by (simp add: valid_mask_deg)
qed


subsection \<open>Size, validity mask and pixels of the projection\<close>

text \<open>
  Claim C8, in exact arithmetic. For an image of \<open>W\<close> by \<open>H\<close> pixels (both positive) and
  \<open>0 < input_fov < 180\<close>, the projection returns an image of \<open>W\<close> by \<open>H\<close> pixels. A pixel
  \<open>(x, y)\<close> is valid exactly when both angles \<open>theta\<close> and \<open>phi\<close>, linear in the distance of
  \<open>x\<close> and \<open>y\<close> from the image centre with the borders at -90 and 90 degrees, are numbers
  with \<open>|theta| \<le> half_input_fov\<close> and \<open>|phi| \<le> half_input_fov\<close>; in degrees, when
  \<open>|(x - cx) / cx \<cdot> 90| \<le> input_fov / 2\<close> and likewise for \<open>y\<close>. Every invalid pixel of the
  result is black. Every valid pixel of the result is the source sampled at
  \<open>(f_x \<cdot> tan theta + cx, f_y \<cdot> tan phi + cy)\<close>, a point that lies inside the source; so the
  pixel of the result is the sample where the test on the angles holds and black where it
  does not. The pixel at the centre of an image with odd sides is valid and keeps its
  value.

  The comparison is that of the real numbers. Where an angle equals half the field of view
  exactly (16 pixels, 156 degrees, \<open>x = 1\<close>: 78 degrees on both sides), the rounding of the
  64-bit computation can decide the comparison of the script either way.
\<close>

theorem convert_to_equirectangular_correct:
  assumes "0 < input_fov" and "input_fov < 180"
    and "has_size W H img" and "0 < W" and "0 < H"
  shows "\<exists>out. convert_to_equirectangular img input_fov = Inr out \<and> has_size W H out
           \<and> (\<forall>y<H. \<forall>x<W.
                 (valid_mask W H input_fov x y \<longleftrightarrow>
                    (\<exists>theta phi. angle W x = Some theta \<and> angle H y = Some phi
                       \<and> theta = (real x - center W) / center W * (pi / 2)
                       \<and> phi = (real y - center H) / center H * (pi / 2)
                       \<and> \<bar>theta\<bar> \<le> half_input_fov input_fov
                       \<and> \<bar>phi\<bar> \<le> half_input_fov input_fov))
               \<and> (valid_mask W H input_fov x y \<longleftrightarrow>
                    1 < W \<and> 1 < H
                    \<and> \<bar>(real x - center W) / center W * 90\<bar> \<le> input_fov / 2
                    \<and> \<bar>(real y - center H) / center H * 90\<bar> \<le> input_fov / 2)
               \<and> (\<not> valid_mask W H input_fov x y \<longrightarrow> out ! y ! x = black)
               \<and> (valid_mask W H input_fov x y \<longrightarrow>
                    out ! y ! x
                      = remap_pixel img (map_coord W input_fov x) (map_coord H input_fov y)
                    \<and> 0 \<le> map_coord W input_fov x \<and> map_coord W input_fov x \<le> real W - 1
                    \<and> 0 \<le> map_coord H input_fov y \<and> map_coord H input_fov y \<le> real H - 1)
               \<and> out ! y ! x
                    = (if 1 < W \<and> 1 < H
                          \<and> \<bar>(real x - center W) / center W * 90\<bar> \<le> input_fov / 2
                          \<and> \<bar>(real y - center H) / center H * 90\<bar> \<le> input_fov / 2
                       then remap_pixel img (map_coord W input_fov x) (map_coord H input_fov y)
                       else black)
               \<and> (1 < W \<and> 1 < H \<and> real x = center W \<and> real y = center H \<longrightarrow>
                    valid_mask W H input_fov x y \<and> out ! y ! x = img ! y ! x))"
proof -
  define out where "out = remap img (map_x W H input_fov) (map_y W H input_fov)"
  have conv: "convert_to_equirectangular img input_fov = Inr out"
    using has_size_dims [OF assms(3,5)] assms(4,5)
    by (simp add: convert_to_equirectangular_def out_def)
  have size: "has_size W H out"
    unfolding out_def by (intro has_size_remap has_size_map_x has_size_map_y)
  have cW: "center W \<noteq> 0 \<longleftrightarrow> 1 < W" and cH: "center H \<noteq> 0 \<longleftrightarrow> 1 < H"
    using assms(4,5) by (auto simp: center_def)
  have px: "(valid_mask W H input_fov x y \<longleftrightarrow>
                    (\<exists>theta phi. angle W x = Some theta \<and> angle H y = Some phi
                       \<and> theta = (real x - center W) / center W * (pi / 2)
                       \<and> phi = (real y - center H) / center H * (pi / 2)
                       \<and> \<bar>theta\<bar> \<le> half_input_fov input_fov
                       \<and> \<bar>phi\<bar> \<le> half_input_fov input_fov))
               \<and> (valid_mask W H input_fov x y \<longleftrightarrow>
                    1 < W \<and> 1 < H
                    \<and> \<bar>(real x - center W) / center W * 90\<bar> \<le> input_fov / 2
                    \<and> \<bar>(real y - center H) / center H * 90\<bar> \<le> input_fov / 2)
               \<and> (\<not> valid_mask W H input_fov x y \<longrightarrow> out ! y ! x = black)
               \<and> (valid_mask W H input_fov x y \<longrightarrow>
                    out ! y ! x
                      = remap_pixel img (map_coord W input_fov x) (map_coord H input_fov y)
                    \<and> 0 \<le> map_coord W input_fov x \<and> map_coord W input_fov x \<le> real W - 1
                    \<and> 0 \<le> map_coord H input_fov y \<and> map_coord H input_fov y \<le> real H - 1)
               \<and> out ! y ! x
                    = (if 1 < W \<and> 1 < H
                          \<and> \<bar>(real x - center W) / center W * 90\<bar> \<le> input_fov / 2
                          \<and> \<bar>(real y - center H) / center H * 90\<bar> \<le> input_fov / 2
                       then remap_pixel img (map_coord W input_fov x) (map_coord H input_fov y)
                       else black)
               \<and> (1 < W \<and> 1 < H \<and> real x = center W \<and> real y = center H \<longrightarrow>
                    valid_mask W H input_fov x y \<and> out ! y ! x = img ! y ! x)"
    if "y < H" and "x < W" for x y
  proof (intro conjI)
    have pixel: "out ! y ! x =
           (if valid_mask W H input_fov x y
            then remap_pixel img (map_coord W input_fov x) (map_coord H input_fov y)
            else black)"
      using that by (simp add: out_def equirect_pixel)
    have deg: "valid_mask W H input_fov x y \<longleftrightarrow>
            1 < W \<and> 1 < H
            \<and> \<bar>(real x - center W) / center W * 90\<bar> \<le> input_fov / 2
            \<and> \<bar>(real y - center H) / center H * 90\<bar> \<le> input_fov / 2"
      by (simp only: valid_mask_deg cW cH)
    show "valid_mask W H input_fov x y \<longleftrightarrow>
            (\<exists>theta phi. angle W x = Some theta \<and> angle H y = Some phi
               \<and> theta = (real x - center W) / center W * (pi / 2)
               \<and> phi = (real y - center H) / center H * (pi / 2)
               \<and> \<bar>theta\<bar> \<le> half_input_fov input_fov
               \<and> \<bar>phi\<bar> \<le> half_input_fov input_fov)"
      by (auto simp: valid_mask_def within_fov_def angle_def split: option.splits if_splits)
    show "valid_mask W H input_fov x y \<longleftrightarrow>
            1 < W \<and> 1 < H
            \<and> \<bar>(real x - center W) / center W * 90\<bar> \<le> input_fov / 2
            \<and> \<bar>(real y - center H) / center H * 90\<bar> \<le> input_fov / 2"
      by (rule deg)
    show "\<not> valid_mask W H input_fov x y \<longrightarrow> out ! y ! x = black"
      using pixel by simp
    show "valid_mask W H input_fov x y \<longrightarrow>
            out ! y ! x
              = remap_pixel img (map_coord W input_fov x) (map_coord H input_fov y)
            \<and> 0 \<le> map_coord W input_fov x \<and> map_coord W input_fov x \<le> real W - 1
            \<and> 0 \<le> map_coord H input_fov y \<and> map_coord H input_fov y \<le> real H - 1"
    proof
      assume v: "valid_mask W H input_fov x y"
      then have vx: "within_fov input_fov (angle W x)" and vy: "within_fov input_fov (angle H y)"
        by (simp_all add: valid_mask_def)
      show "out ! y ! x
              = remap_pixel img (map_coord W input_fov x) (map_coord H input_fov y)
            \<and> 0 \<le> map_coord W input_fov x \<and> map_coord W input_fov x \<le> real W - 1
            \<and> 0 \<le> map_coord H input_fov y \<and> map_coord H input_fov y \<le> real H - 1"
        using pixel v map_coord_range [OF assms(1,2,4) vx] map_coord_range [OF assms(1,2,5) vy]
        by simp
    qed
    show "out ! y ! x
            = (if 1 < W \<and> 1 < H
                  \<and> \<bar>(real x - center W) / center W * 90\<bar> \<le> input_fov / 2
                  \<and> \<bar>(real y - center H) / center H * 90\<bar> \<le> input_fov / 2
               then remap_pixel img (map_coord W input_fov x) (map_coord H input_fov y)
               else black)"
      using pixel unfolding deg .
    show "1 < W \<and> 1 < H \<and> real x = center W \<and> real y = center H \<longrightarrow>
            valid_mask W H input_fov x y \<and> out ! y ! x = img ! y ! x"
    proof
      assume c: "1 < W \<and> 1 < H \<and> real x = center W \<and> real y = center H"
      then have v: "valid_mask W H input_fov x y"
        using valid_mask_center [OF assms(1)] by blast
      have "y < length img" and "x < length (img ! y)"
        using assms(3) that by (simp_all add: has_size_def list_all_length)
      then have "remap_pixel img (real x) (real y) = img ! y ! x"
        by (rule remap_pixel_integer)
      moreover have "map_coord W input_fov x = real x" "map_coord H input_fov y = real y"
        using c by (simp_all add: map_coord_center)
      ultimately show "valid_mask W H input_fov x y \<and> out ! y ! x = img ! y ! x"
        using pixel v by simp
    qed
  qed
  show ?thesis
    using conv size px by blast
qed

theorem convert_to_equirectangular_correct_witness:
  "(0::real) < 90 \<and> (90::real) < 180 \<and> has_size 3 3 grey3 \<and> \<not> valid_mask 3 3 90 0 1
   \<and> valid_mask 3 3 90 1 1 \<and> real 1 = center 3
   \<and> (\<exists>out. convert_to_equirectangular grey3 90 = Inr out \<and> has_size 3 3 out
          \<and> out ! 1 ! 0 = black \<and> out ! 1 ! 1 = (7, 8, 9))"
proof -
  have hs: "has_size 3 3 grey3"
    by (simp add: has_size_def grey3_def)
  have nv: "\<not> valid_mask 3 3 90 0 1"
    by (simp add: valid_mask_deg center_def)
  have v: "valid_mask 3 3 90 1 1"
    by (simp add: valid_mask_deg center_def)
  have c: "real 1 = center 3"
    by (simp add: center_def)
  have g: "grey3 ! 1 ! 1 = (7, 8, 9)"
    by (simp add: grey3_def)
  from convert_to_equirectangular_correct [of 90 3 3 grey3, OF _ _ hs]
  obtain out where o: "convert_to_equirectangular grey3 90 = Inr out" "has_size 3 3 out"
    and px: "\<forall>y<3. \<forall>x<3.
               (\<not> valid_mask 3 3 90 x y \<longrightarrow> out ! y ! x = black)
             \<and> ((1::nat) < 3 \<and> (1::nat) < 3 \<and> real x = center 3 \<and> real y = center 3 \<longrightarrow>
                  valid_mask 3 3 90 x y \<and> out ! y ! x = grey3 ! y ! x)"
    by auto
  from px nv have "out ! 1 ! 0 = black"
    by simp
  moreover from px [rule_format, of 1 1] c g have "out ! 1 ! 1 = (7, 8, 9)"
    by simp
  ultimately show ?thesis
    using hs nv v c o by auto
qed

section \<open>Facts about the accumulation\<close>

lemma adjacent_equal_simps:
  "adjacent_equal [] = []"
  "adjacent_equal [x] = []"
  "adjacent_equal (x # y # zs) = (if x = y then [x] else []) @ adjacent_equal (y # zs)"
  by (simp_all add: adjacent_equal_def)

lemma set_adjacent_equal_subset: "set (adjacent_equal xs) \<subseteq> set xs"
  by (induction xs rule: induct_list012) (auto simp: adjacent_equal_simps)

lemma set_adjacent_equal:
  "sorted xs \<Longrightarrow> set (adjacent_equal xs) = {v. 2 \<le> count (mset xs) v}"
proof (induction xs rule: induct_list012)
  case 1
  then show ?case by (simp add: adjacent_equal_simps)
next
  case (2 x)
  then show ?case by (auto simp: adjacent_equal_simps)
next
  case (3 x y zs)
  have IH: "set (adjacent_equal (y # zs)) = {v. 2 \<le> count (mset (y # zs)) v}"
    using 3 by simp
  show ?case
  proof (cases "x = y")
    case True
    then show ?thesis
      by (auto simp: adjacent_equal_simps IH)
  next
    case False
    then have "x \<notin> set (y # zs)"
      using "3.prems" by auto
    then have c0: "count (mset (y # zs)) x = 0"
      using count_mset_0_iff [of "y # zs" x] by blast
    have "set (adjacent_equal (x # y # zs)) = set (adjacent_equal (y # zs))"
      using False by (simp add: adjacent_equal_simps)
    also have "\<dots> = {v. 2 \<le> count (mset (y # zs)) v}"
      by (rule IH)
    also have "\<dots> = {v. 2 \<le> count (mset (x # y # zs)) v}"
    proof (rule Collect_cong)
      fix v
      show "(2 \<le> count (mset (y # zs)) v) = (2 \<le> count (mset (x # y # zs)) v)"
      proof (cases "v = x")
        case True
        have "count (mset (x # y # zs)) x = Suc (count (mset (y # zs)) x)"
          by simp
        then show ?thesis
          unfolding True c0 by (simp only: c0) simp
      next
        case False
        then show ?thesis by simp
      qed
    qed
    finally show ?thesis .
  qed
qed

lemma sorted_adjacent_equal: "sorted xs \<Longrightarrow> sorted (adjacent_equal xs)"
proof (induction xs rule: induct_list012)
  case (3 x y zs)
  have "\<forall>v\<in>set (adjacent_equal (y # zs)). x \<le> v"
    using "3.prems" set_adjacent_equal_subset [of "y # zs"] by auto
  then show ?case
    using 3 by (auto simp: adjacent_equal_simps)
qed (simp_all add: adjacent_equal_simps)

lemma distinct_adjacent_equal:
  "sorted xs \<Longrightarrow> (\<forall>v. count (mset xs) v \<le> 2) \<Longrightarrow> distinct (adjacent_equal xs)"
proof (induction xs rule: induct_list012)
  case (3 x y zs)
  have le: "\<forall>v. count (mset (y # zs)) v \<le> 2"
  proof
    fix v
    have "count (mset (y # zs)) v \<le> count (mset (x # y # zs)) v" by simp
    then show "count (mset (y # zs)) v \<le> 2"
      using "3.prems"(2) le_trans by blast
  qed
  have d: "distinct (adjacent_equal (y # zs))"
    using 3 le by simp
  show ?case
  proof (cases "x = y")
    case True
    have "count (mset (x # y # zs)) x \<le> 2"
      using "3.prems"(2) by blast
    then have "count (mset (y # zs)) x \<le> 1"
      by simp
    then have "x \<notin> set (adjacent_equal (y # zs))"
      using set_adjacent_equal [of "y # zs"] "3.prems"(1) by auto
    then show ?thesis
      using True d by (simp add: adjacent_equal_simps)
  next
    case False
    then show ?thesis
      using d by (simp add: adjacent_equal_simps)
  qed
qed (simp_all add: adjacent_equal_simps)

lemma sorted_distinct_adj_distinct: "sorted xs \<Longrightarrow> distinct_adj xs \<Longrightarrow> distinct xs"
proof (induction xs)
  case Nil
  then show ?case by simp
next
  case (Cons x xs)
  have "x \<notin> set xs"
  proof
    assume "x \<in> set xs"
    then obtain y ys where xs: "xs = y # ys" by (cases xs) auto
    have "y \<le> x" using \<open>x \<in> set xs\<close> Cons.prems(1) xs by auto
    moreover have "x \<le> y" using Cons.prems(1) xs by auto
    moreover have "x \<noteq> y" using Cons.prems(2) xs by simp
    ultimately show False by simp
  qed
  moreover have "distinct xs"
    using Cons by (cases xs) auto
  ultimately show ?case by simp
qed

lemma distinct_unique: "distinct (unique ar)"
  unfolding unique_def by (rule sorted_distinct_adj_distinct) simp_all

lemma unique_eq: "unique ar = sorted_list_of_set (set ar)"
proof -
  have "sorted (unique ar)" and "distinct (unique ar)" and "set (unique ar) = set ar"
    by (simp_all add: unique_def distinct_unique [unfolded unique_def])
  then show ?thesis
    by (metis sorted_list_of_set.idem_if_sorted_distinct)
qed

lemma count_unique: "count (mset (unique ar)) v = (if v \<in> set ar then 1 else 0)"
proof -
  have "distinct (unique ar)" and "set (unique ar) = set ar"
    by (simp_all add: unique_def distinct_unique [unfolded unique_def])
  then show ?thesis
    by (metis count_mset_0_iff distinct_count_atmost_1)
qed

lemma intersect1d_eq:
  "intersect1d ar1 ar2 = sorted_list_of_set (set ar1 \<inter> set ar2)"
proof -
  define aux where "aux = sort (unique ar1 @ unique ar2)"
  have cnt: "count (mset aux) v = (if v \<in> set ar1 then 1 else 0) + (if v \<in> set ar2 then 1 else 0)"
    for v
    by (simp add: aux_def count_unique)
  have s: "sorted aux"
    by (simp add: aux_def)
  have "set (adjacent_equal aux) = set ar1 \<inter> set ar2"
    using set_adjacent_equal [OF s] by (auto simp: cnt)
  moreover have "sorted (adjacent_equal aux)"
    using s by (rule sorted_adjacent_equal)
  moreover have "distinct (adjacent_equal aux)"
    using s by (rule distinct_adjacent_equal) (simp add: cnt)
  ultimately have "adjacent_equal aux = sorted_list_of_set (set ar1 \<inter> set ar2)"
    by (metis sorted_list_of_set.idem_if_sorted_distinct)
  then show ?thesis
    by (simp add: intersect1d_def aux_def)
qed

lemma set_where_below_128:
  "set (where_below_128 m) = {int i | i. i < length m \<and> m ! i < 128}"
  by (auto simp: where_below_128_def)

lemma take_rows_ok:
  assumes "\<forall>i\<in>set idx. 0 \<le> i \<and> i < int (length arr)"
  shows "take_rows arr idx = Inr (map (\<lambda>i. arr ! nat i) idx)"
proof -
  have "list_all (\<lambda>i. - int (length arr) \<le> i \<and> i < int (length arr)) idx"
    using assms by (auto simp: list_all_iff)
  moreover have "map (\<lambda>i. arr ! nat (if i < 0 then i + int (length arr) else i)) idx
                   = map (\<lambda>i. arr ! nat i) idx"
    using assms by (intro map_cong) auto
  ultimately show ?thesis
    by (simp add: take_rows_def)
qed

lemma background_candidates_ok:
  assumes "\<forall>i\<in>set used_indices. i < int (length (vertices mesh))"
    and "length (vertex_colors mesh) = length (vertices mesh)"
  shows "background_candidates mesh used_indices mask_img =
           Inr (map (\<lambda>i. vertices mesh ! nat i)
                  (intersect1d used_indices (where_below_128 (concat mask_img))),
                map (\<lambda>i. vertex_colors mesh ! nat i)
                  (intersect1d used_indices (where_below_128 (concat mask_img))))"
proof -
  define keep where "keep = intersect1d used_indices (where_below_128 (concat mask_img))"
  have "set keep = set used_indices \<inter> set (where_below_128 (concat mask_img))"
    by (simp add: keep_def intersect1d_eq)
  then have ok: "\<forall>i\<in>set keep. 0 \<le> i \<and> i < int (length (vertices mesh))"
    using assms(1) by (auto simp: set_where_below_128)
  have p: "take_rows (vertices mesh) keep = Inr (map (\<lambda>i. vertices mesh ! nat i) keep)"
    using ok by (rule take_rows_ok)
  have c: "take_rows (vertex_colors mesh) keep = Inr (map (\<lambda>i. vertex_colors mesh ! nat i) keep)"
    using ok assms(2) by (intro take_rows_ok) simp
  show ?thesis
    unfolding background_candidates_def Let_def keep_def [symmetric] by (simp add: p c)
qed

lemma accumulate_no_trigger:
  assumes "frame_n st mod 10 \<noteq> 0"
    and "mask_video st = Some (mask_img # rest)"
    and "\<forall>i\<in>set used_indices. i < int (length (vertices mesh))"
    and "length (vertex_colors mesh) = length (vertices mesh)"
  shows "accumulate co mesh used_indices st =
           Inr (append_background co
                  (map (\<lambda>i. vertices mesh ! nat i)
                     (intersect1d used_indices (where_below_128 (concat mask_img))))
                  (map (\<lambda>i. vertex_colors mesh ! nat i)
                     (intersect1d used_indices (where_below_128 (concat mask_img))))
                  (st\<lparr>mask_video := Some rest\<rparr>))"
  using assms(1,2)
  by (simp add: accumulate_def read_frame_def background_candidates_ok [OF assms(3,4)]
      append_background_def)

text \<open>
  Claim C6. On an accumulation frame whose counter is not a multiple of 10, with a mask
  frame to read and the indices of the collaborator lying below the number of vertices of
  the mesh, the points and the colours of the cloud each grow by exactly \<open>K\<close>: the number of
  distinct indices that are both among the indices of the collaborator and mask pixels
  below 128. The old points stay in front. The intersection has no duplicates and depends
  only on the two sets of indices, not on their order or repetitions.
\<close>

theorem accumulate_grows_by_intersection:
  assumes "frame_n st mod 10 \<noteq> 0"
    and "mask_video st = Some (mask_img # rest)"
    and "\<forall>i\<in>set used_indices. i < int (length (vertices mesh))"
    and "length (vertex_colors mesh) = length (vertices mesh)"
  shows "\<exists>st'. accumulate co mesh used_indices st = Inr st'
           \<and> length (bg_points st') = length (bg_points st)
                + card (set used_indices \<inter> {int i | i. i < length (concat mask_img)
                                                        \<and> concat mask_img ! i < 128})
           \<and> length (bg_point_colors st') = length (bg_point_colors st)
                + card (set used_indices \<inter> {int i | i. i < length (concat mask_img)
                                                        \<and> concat mask_img ! i < 128})
           \<and> take (length (bg_points st)) (bg_points st') = bg_points st
           \<and> take (length (bg_point_colors st)) (bg_point_colors st') = bg_point_colors st
           \<and> distinct (intersect1d used_indices (where_below_128 (concat mask_img)))
           \<and> (\<forall>used' mask'. set used' = set used_indices
                  \<and> set mask' = set (where_below_128 (concat mask_img))
                  \<longrightarrow> intersect1d used' mask'
                       = intersect1d used_indices (where_below_128 (concat mask_img)))"
proof -
  let ?m = "where_below_128 (concat mask_img)"
  let ?keep = "intersect1d used_indices ?m"
  have len: "length ?keep = card (set used_indices \<inter> {int i | i. i < length (concat mask_img)
                                                        \<and> concat mask_img ! i < 128})"
    by (simp add: intersect1d_eq set_where_below_128)
  have d: "distinct ?keep"
    by (simp add: intersect1d_eq)
  have ind: "\<forall>used' mask'. set used' = set used_indices \<and> set mask' = set ?m
               \<longrightarrow> intersect1d used' mask' = ?keep"
    by (simp add: intersect1d_eq)
  have acc: "accumulate co mesh used_indices st =
           Inr (append_background co (map (\<lambda>i. vertices mesh ! nat i) ?keep)
                  (map (\<lambda>i. vertex_colors mesh ! nat i) ?keep) (st\<lparr>mask_video := Some rest\<rparr>))"
    by (rule accumulate_no_trigger [OF assms])
  have "length (bg_points (append_background co (map (\<lambda>i. vertices mesh ! nat i) ?keep)
                  (map (\<lambda>i. vertex_colors mesh ! nat i) ?keep) (st\<lparr>mask_video := Some rest\<rparr>)))
               = length (bg_points st) + length ?keep"
    and "length (bg_point_colors (append_background co (map (\<lambda>i. vertices mesh ! nat i) ?keep)
                  (map (\<lambda>i. vertex_colors mesh ! nat i) ?keep) (st\<lparr>mask_video := Some rest\<rparr>)))
               = length (bg_point_colors st) + length ?keep"
    and "take (length (bg_points st))
           (bg_points (append_background co (map (\<lambda>i. vertices mesh ! nat i) ?keep)
                  (map (\<lambda>i. vertex_colors mesh ! nat i) ?keep) (st\<lparr>mask_video := Some rest\<rparr>)))
               = bg_points st"
    and "take (length (bg_point_colors st))
           (bg_point_colors (append_background co (map (\<lambda>i. vertices mesh ! nat i) ?keep)
                  (map (\<lambda>i. vertex_colors mesh ! nat i) ?keep) (st\<lparr>mask_video := Some rest\<rparr>)))
               = bg_point_colors st"
    by (simp_all add: append_background_def)
  then show ?thesis
    unfolding acc len [symmetric] using d ind by blast
qed

lemma write_frame_snd: "snd (write_frame cfg img st) = st\<lparr>out := out st @ [img]\<rparr>"
  by (simp add: write_frame_def Let_def)

lemma read_color_frame_effect:
  assumes "read_color_frame f st = Inr (c, st1)"
  shows "mask_video st1 = mask_video st \<and> frame_n st1 = frame_n st
           \<and> down_sample_calls st1 = down_sample_calls st
           \<and> bg_points st1 = bg_points st \<and> bg_point_colors st1 = bg_point_colors st
           \<and> bg_cloud st1 = bg_cloud st \<and> last_mesh st1 = last_mesh st \<and> out st1 = out st"
  using assms
  by (auto simp: read_color_frame_def read_frame_def
      split: option.splits list.splits if_splits)

lemma accumulate_effect:
  assumes "accumulate co mesh used st = Inr st'"
  shows "\<exists>m rest. mask_video st = Some (m # rest) \<and> mask_video st' = Some rest
           \<and> frame_n st' = frame_n st
           \<and> down_sample_calls st' = down_sample_calls st
                @ (if frame_n st mod 10 = 0 then [(frame_n st, 3 / 1000)] else [])"
proof -
  obtain m rest where rd: "mask_video st = Some (m # rest)"
    using assms by (auto simp: accumulate_def read_frame_def split: option.splits list.splits)
  obtain ps cs where cand: "background_candidates mesh used m = Inr (ps, cs)"
    using assms rd by (auto simp: accumulate_def read_frame_def split: sum.splits)
  define st1 where "st1 = append_background co ps cs (st\<lparr>mask_video := Some rest\<rparr>)"
  have st1: "mask_video st1 = Some rest" "frame_n st1 = frame_n st"
    "down_sample_calls st1 = down_sample_calls st"
    by (simp_all add: st1_def append_background_def)
  have "st' = (if frame_n st1 mod 10 = 0 then clear_up_pointcloud co st1 else st1)"
    using assms rd cand by (simp add: accumulate_def read_frame_def st1_def Let_def split: if_splits)
  then show ?thesis
    using rd st1 by (auto simp: clear_up_pointcloud_def Let_def)
qed

lemma render_and_write_effect:
  assumes "render_and_write cfg co mesh st = Inr (stop, st')"
  shows "mask_video st' = mask_video st \<and> frame_n st' = frame_n st
           \<and> down_sample_calls st' = down_sample_calls st
           \<and> bg_points st' = bg_points st \<and> bg_point_colors st' = bg_point_colors st"
  using assms
  by (auto simp: render_and_write_def write_frame_def Let_def
      split: if_splits sum.splits prod.splits)

lemma full_path_mask_effect:
  assumes "full_path cfg co color_frame depth st = Inr (stop, st')"
    and "mask_video st \<noteq> None"
  shows "\<exists>m rest. mask_video st = Some (m # rest) \<and> mask_video st' = Some rest
           \<and> frame_n st' = frame_n st
           \<and> down_sample_calls st' = down_sample_calls st
                @ (if frame_n st mod 10 = 0 then [(frame_n st, 3 / 1000)] else [])"
proof -
  obtain T where T: "transform_to_zero cfg st = Inr T"
    using assms(1) by (auto simp: full_path_def split: sum.splits)
  obtain mesh0 used where gm:
    "get_mesh_from_depth_map co depth color_frame (last_mesh st) (remove_edges cfg) = (mesh0, used)"
    by (cases "get_mesh_from_depth_map co depth color_frame (last_mesh st) (remove_edges cfg)")
  define mesh where "mesh = (case T of None \<Rightarrow> mesh0 | Some M \<Rightarrow> transform co M mesh0)"
  define st1 where "st1 = st\<lparr>last_mesh := Some mesh\<rparr>"
  have m1: "mask_video st1 \<noteq> None"
    using assms(2) by (simp add: st1_def)
  have fp: "(case accumulate co mesh used st1 of Inl e \<Rightarrow> Inl e
             | Inr st2 \<Rightarrow> render_and_write cfg co mesh st2) = Inr (stop, st')"
    using assms(1) T gm m1 unfolding mesh_def st1_def by (simp add: full_path_def Let_def)
  then obtain st2 where acc: "accumulate co mesh used st1 = Inr st2"
    and rw: "render_and_write cfg co mesh st2 = Inr (stop, st')"
    by (auto split: sum.splits)
  from accumulate_effect [OF acc] obtain m rest where
    e: "mask_video st1 = Some (m # rest)" "mask_video st2 = Some rest" "frame_n st2 = frame_n st1"
       "down_sample_calls st2 = down_sample_calls st1
          @ (if frame_n st1 mod 10 = 0 then [(frame_n st1, 3 / 1000)] else [])"
    by blast
  have s1: "mask_video st1 = mask_video st" "frame_n st1 = frame_n st"
    "down_sample_calls st1 = down_sample_calls st"
    by (simp_all add: st1_def)
  show ?thesis
    using render_and_write_effect [OF rw] e unfolding s1 by simp
qed

lemma process_frame_accumulating:
  assumes "process_frame cfg co f st = Inr (stop, st')"
    and "\<not> (transformations cfg = None \<and> touchly1 cfg)"
    and "mask_video st \<noteq> None"
  shows "\<exists>m rest. mask_video st = Some (m # rest) \<and> mask_video st' = Some rest
           \<and> frame_n st' = frame_n st
           \<and> down_sample_calls st' = down_sample_calls st
                @ (if frame_n st mod 10 = 0 then [(frame_n st, 3 / 1000)] else [])"
proof -
  obtain c st1 where rc: "read_color_frame f st = Inr (c, st1)"
    using assms(1) by (auto simp: process_frame_def split: sum.splits)
  obtain depth where d: "decode_frame (max_depth cfg) f = Inr depth"
    using assms(1) rc by (auto simp: process_frame_def split: sum.splits)
  have fp: "full_path cfg co c depth st1 = Inr (stop, st')"
    using assms(1,2) rc d by (auto simp: process_frame_def)
  have s1: "mask_video st1 = mask_video st" "frame_n st1 = frame_n st"
    "down_sample_calls st1 = down_sample_calls st"
    using read_color_frame_effect [OF rc] by simp_all
  have "mask_video st1 \<noteq> None"
    using assms(3) s1 by simp
  from full_path_mask_effect [OF fp this] show ?thesis
    unfolding s1 .
qed

lemma run_down_sample_calls:
  assumes "run cfg co fs st = Inr st'"
    and "\<not> (transformations cfg = None \<and> touchly1 cfg)"
    and "mask_video st = Some ms"
  shows "\<exists>ms'. mask_video st' = Some ms' \<and> length ms' \<le> length ms
           \<and> down_sample_calls st' = down_sample_calls st
                @ map (\<lambda>k. (k, 3 / 1000))
                    (filter (\<lambda>k. k mod 10 = 0)
                       [frame_n st + 1 ..< frame_n st + 1 + (length ms - length ms')])"
  using assms
proof (induction fs arbitrary: st ms)
  case Nil
  then show ?case by auto
next
  case (Cons f fs)
  define st0 where "st0 = st\<lparr>frame_n := frame_n st + 1\<rparr>"
  obtain stop st1 where pf: "process_frame cfg co f st0 = Inr (stop, st1)"
    and rest: "(if stop then Inr st1 else run cfg co fs st1) = Inr st'"
    using Cons.prems(1) by (auto simp: st0_def split: sum.splits)
  have m0: "mask_video st0 \<noteq> None"
    using Cons.prems(3) by (simp add: st0_def)
  from process_frame_accumulating [OF pf Cons.prems(2) m0]
  obtain m tl_ms where e: "mask_video st0 = Some (m # tl_ms)" "mask_video st1 = Some tl_ms"
    "frame_n st1 = frame_n st0"
    "down_sample_calls st1 = down_sample_calls st0
       @ (if frame_n st0 mod 10 = 0 then [(frame_n st0, 3 / 1000)] else [])"
    by blast
  have ms: "ms = m # tl_ms"
    using e(1) Cons.prems(3) by (simp add: st0_def)
  have f1: "frame_n st1 = frame_n st + 1"
    using e(3) by (simp add: st0_def)
  have c1: "down_sample_calls st1 = down_sample_calls st
       @ (if (frame_n st + 1) mod 10 = 0 then [(frame_n st + 1, 3 / 1000)] else [])"
    using e(4) by (simp add: st0_def)
  show ?case
  proof (cases stop)
    case True
    then have "st' = st1" using rest by simp
    then show ?thesis
      using e(2) ms c1 by (intro exI [of _ tl_ms]) simp
  next
    case False
    then have "run cfg co fs st1 = Inr st'" using rest by simp
    from Cons.IH [OF this Cons.prems(2) e(2)]
    obtain ms' where r: "mask_video st' = Some ms'" "length ms' \<le> length tl_ms"
      "down_sample_calls st' = down_sample_calls st1
         @ map (\<lambda>k. (k, 3 / 1000))
             (filter (\<lambda>k. k mod 10 = 0)
                [frame_n st1 + 1 ..< frame_n st1 + 1 + (length tl_ms - length ms')])"
      by blast
    define k where "k = length tl_ms - length ms'"
    define n where "n = frame_n st"
    have len: "length ms - length ms' = Suc k"
      using r(2) ms by (simp add: k_def)
    have "[n + 1 ..< n + 1 + Suc k] = (n + 1) # [n + 1 + 1 ..< n + 1 + 1 + k]"
      by (simp add: upt_conv_Cons)
    then have "[frame_n st + 1 ..< frame_n st + 1 + (length ms - length ms')]
            = (frame_n st + 1) # [frame_n st1 + 1 ..< frame_n st1 + 1 + (length tl_ms - length ms')]"
      unfolding len f1 n_def k_def .
    then show ?thesis
      using r ms c1 by (intro exI [of _ ms']) simp
  qed
qed

lemma accumulate_step:
  assumes "accumulate co mesh used s = Inr s'"
  shows "\<exists>ps cs. (frame_n s mod 10 \<noteq> 0 \<longrightarrow>
                    bg_points s' = bg_points s @ ps \<and> bg_point_colors s' = bg_point_colors s @ cs
                    \<and> down_sample_calls s' = down_sample_calls s)
               \<and> (frame_n s mod 10 = 0 \<longrightarrow>
                    bg_cloud s' = perspective_aware_down_sample co
                       (pts_2_pcd co (bg_points s @ ps) (bg_point_colors s @ cs)) (3 / 1000)
                    \<and> bg_points s' = vertices (bg_cloud s')
                    \<and> bg_point_colors s' = vertex_colors (bg_cloud s')
                    \<and> down_sample_calls s' = down_sample_calls s @ [(frame_n s, 3 / 1000)])"
proof -
  obtain m rest where rd: "mask_video s = Some (m # rest)"
    using assms by (auto simp: accumulate_def read_frame_def split: option.splits list.splits)
  obtain ps cs where cand: "background_candidates mesh used m = Inr (ps, cs)"
    using assms rd by (auto simp: accumulate_def read_frame_def split: sum.splits)
  define s1 where "s1 = append_background co ps cs (s\<lparr>mask_video := Some rest\<rparr>)"
  have "s' = (if frame_n s1 mod 10 = 0 then clear_up_pointcloud co s1 else s1)"
    using assms rd cand by (simp add: accumulate_def read_frame_def s1_def Let_def split: if_splits)
  then show ?thesis
    by (intro exI [of _ ps] exI [of _ cs])
       (auto simp: s1_def append_background_def clear_up_pointcloud_def Let_def)
qed

text \<open>
  Claim C5. In a run with a mask video that does not take the fast path, every frame
  processed reads one mask frame, so the accumulation frames are the counters
  \<open>frame_n + 1, ..., frame_n + n\<close> for the \<open>n\<close> mask frames read. The down-sampling is called,
  with the cell size 0.003, exactly at those of them that are multiples of 10, in order.
  On the other frames an accumulation only appends to the points and colours; at a
  multiple of 10 the down-sampled cloud replaces them.
\<close>

theorem decimation_every_tenth_frame:
  assumes "run cfg co raw_video st = Inr st'"
    and "\<not> (transformations cfg = None \<and> touchly1 cfg)"
    and "mask_video st = Some ms"
  shows "(\<exists>ms'. mask_video st' = Some ms' \<and> length ms' \<le> length ms
           \<and> down_sample_calls st' = down_sample_calls st
                @ map (\<lambda>k. (k, 3 / 1000))
                    (filter (\<lambda>k. k mod 10 = 0)
                       [frame_n st + 1 ..< frame_n st + 1 + (length ms - length ms')]))
         \<and> (\<forall>mesh used s s'. accumulate co mesh used s = Inr s' \<longrightarrow>
               (\<exists>ps cs. (frame_n s mod 10 \<noteq> 0 \<longrightarrow>
                    bg_points s' = bg_points s @ ps \<and> bg_point_colors s' = bg_point_colors s @ cs
                    \<and> down_sample_calls s' = down_sample_calls s)
               \<and> (frame_n s mod 10 = 0 \<longrightarrow>
                    bg_cloud s' = perspective_aware_down_sample co
                       (pts_2_pcd co (bg_points s @ ps) (bg_point_colors s @ cs)) (3 / 1000)
                    \<and> bg_points s' = vertices (bg_cloud s')
                    \<and> bg_point_colors s' = vertex_colors (bg_cloud s')
                    \<and> down_sample_calls s' = down_sample_calls s @ [(frame_n s, 3 / 1000)])))"
  using run_down_sample_calls [OF assms] accumulate_step by blast

lemma process_frame_fast:
  assumes "touchly1 cfg" and "transformations cfg = None"
  shows "process_frame cfg co f st = process_frame cfg co' f st"
  using assms by (auto simp: process_frame_def split: sum.splits prod.splits)

lemma process_frame_fast_effect:
  assumes "touchly1 cfg" and "transformations cfg = None"
    and "process_frame cfg co f st = Inr (stop, st')"
  shows "mask_video st' = mask_video st \<and> bg_points st' = bg_points st
           \<and> bg_point_colors st' = bg_point_colors st \<and> bg_cloud st' = bg_cloud st
           \<and> down_sample_calls st' = down_sample_calls st \<and> last_mesh st' = last_mesh st"
proof -
  obtain c st1 where rc: "read_color_frame f st = Inr (c, st1)"
    using assms(3) by (auto simp: process_frame_def split: sum.splits)
  obtain depth where d: "decode_frame (max_depth cfg) f = Inr depth"
    using assms(3) rc by (auto simp: process_frame_def split: sum.splits)
  obtain img where "fast_path cfg c depth = Inr img" and "st' = snd (write_frame cfg img st1)"
    using assms rc d by (auto simp: process_frame_def split: sum.splits)
  then show ?thesis
    using read_color_frame_effect [OF rc] by (simp add: write_frame_snd)
qed

lemma run_fast:
  assumes "touchly1 cfg" and "transformations cfg = None"
  shows "run cfg co fs st = run cfg co' fs st"
proof (induction fs arbitrary: st)
  case Nil
  then show ?case by simp
next
  case (Cons f fs)
  show ?case
    by (simp add: process_frame_fast [OF assms, of co f _ co'] Cons.IH split: sum.splits)
qed

lemma run_fast_effect:
  assumes "touchly1 cfg" and "transformations cfg = None"
    and "run cfg co fs st = Inr st'"
  shows "mask_video st' = mask_video st \<and> bg_points st' = bg_points st
           \<and> bg_point_colors st' = bg_point_colors st \<and> bg_cloud st' = bg_cloud st
           \<and> down_sample_calls st' = down_sample_calls st \<and> last_mesh st' = last_mesh st"
  using assms(3)
proof (induction fs arbitrary: st)
  case Nil
  then show ?case by auto
next
  case (Cons f fs)
  define st0 where "st0 = st\<lparr>frame_n := frame_n st + 1\<rparr>"
  obtain stop st1 where pf: "process_frame cfg co f st0 = Inr (stop, st1)"
    and rest: "(if stop then Inr st1 else run cfg co fs st1) = Inr st'"
    using Cons.prems by (auto simp: st0_def split: sum.splits)
  have e: "mask_video st1 = mask_video st \<and> bg_points st1 = bg_points st
           \<and> bg_point_colors st1 = bg_point_colors st \<and> bg_cloud st1 = bg_cloud st
           \<and> down_sample_calls st1 = down_sample_calls st \<and> last_mesh st1 = last_mesh st"
    using process_frame_fast_effect [OF assms(1,2) pf] by (simp add: st0_def)
  show ?case
  proof (cases stop)
    case True
    then show ?thesis using rest e by simp
  next
    case False
    then have "run cfg co fs st1 = Inr st'" using rest by simp
    from Cons.IH [OF this] e show ?thesis by simp
  qed
qed

text \<open>
  Claim C10. With Touchly-mono selected and no transformations, a run leaves the mask video
  unread and the background (points, colours, cloud), the mesh hint and the record of the
  down-sampling calls as they were, whether a mask video is given or not; and the run is
  the same whatever the collaborators are: none of them is called.
\<close>

theorem touchly1_fast_path_leaves_background:
  assumes "touchly1 cfg" and "transformations cfg = None"
    and "run cfg co raw_video st = Inr st'"
  shows "mask_video st' = mask_video st \<and> bg_points st' = bg_points st
           \<and> bg_point_colors st' = bg_point_colors st \<and> bg_cloud st' = bg_cloud st
           \<and> down_sample_calls st' = down_sample_calls st \<and> last_mesh st' = last_mesh st
           \<and> (\<forall>co'. run cfg co' raw_video st = Inr st')"
  using run_fast_effect [OF assms] run_fast [OF assms(1,2)] assms(3) by metis

section \<open>Concrete runs\<close>

lemma demo_candidates:
  "background_candidates demo_mesh [0] demo_mask = Inr ([(0, 0, 1)], [(1, 1, 1)])"
  by (simp add: background_candidates_def where_below_128_def intersect1d_def unique_def
      adjacent_equal_def take_rows_def demo_mesh_def demo_mask_def)

lemma demo_decode: "decode_frame 20 demo_frame = Inr [[0]]"
  by (simp add: decode_frame_def depth_scale_def demo_frame_def depth_bits_def u32_of_bytes_def
      high_byte_def f64_to_u8_def trunc_def)

lemma demo_step:
  "process_frame demo_config demo_collaborators demo_frame
     \<lparr>frame_n = n, last_mesh = lm, bg_points = ps, bg_point_colors = cs,
      bg_cloud = cl, color_video = None,
      mask_video = Some (demo_mask # ms), out = [], down_sample_calls = calls\<rparr>
   = Inr (False,
       if n mod 10 = 0
       then \<lparr>frame_n = n, last_mesh = Some demo_mesh,
             bg_points = take 1 (ps @ [(0, 0, 1)]), bg_point_colors = take 1 (cs @ [(1, 1, 1)]),
             bg_cloud = \<lparr>vertices = take 1 (ps @ [(0, 0, 1)]),
                         vertex_colors = take 1 (cs @ [(1, 1, 1)])\<rparr>,
             color_video = None, mask_video = Some ms, out = [],
             down_sample_calls = calls @ [(n, 3 / 1000)]\<rparr>
       else \<lparr>frame_n = n, last_mesh = Some demo_mesh,
             bg_points = ps @ [(0, 0, 1)], bg_point_colors = cs @ [(1, 1, 1)],
             bg_cloud = \<lparr>vertices = ps @ [(0, 0, 1)], vertex_colors = cs @ [(1, 1, 1)]\<rparr>,
             color_video = None, mask_video = Some ms, out = [],
             down_sample_calls = calls\<rparr>)"
  by (simp add: process_frame_def read_color_frame_def demo_decode [unfolded demo_frame_def]
      demo_frame_def full_path_def transform_to_zero_def accumulate_def read_frame_def
      demo_candidates append_background_def clear_up_pointcloud_def render_and_write_def
      frame_limit_reached_def Let_def demo_config_def demo_collaborators_def)

lemma demo_run:
  "run demo_config demo_collaborators demo_video (demo_state 0 (Some demo_masks)) = Inr demo_final"
  by (simp add: demo_video_def demo_masks_def demo_state_def demo_final_def demo_step)

theorem decimation_every_tenth_frame_witness:
  "run demo_config demo_collaborators demo_video (demo_state 0 (Some demo_masks)) = Inr demo_final
   \<and> \<not> (transformations demo_config = None \<and> touchly1 demo_config)
   \<and> mask_video (demo_state 0 (Some demo_masks)) = Some demo_masks
   \<and> mask_video demo_final = Some []
   \<and> down_sample_calls demo_final = [(10, 3 / 1000)]"
proof -
  have c: "\<not> (transformations demo_config = None \<and> touchly1 demo_config)"
    by (simp add: demo_config_def)
  have m: "mask_video (demo_state 0 (Some demo_masks)) = Some demo_masks"
    by (simp add: demo_state_def)
  from decimation_every_tenth_frame [OF demo_run c m]
  have "\<exists>ms'. mask_video demo_final = Some ms' \<and> length ms' \<le> length demo_masks"
    by blast
  then show ?thesis
    using demo_run c m by (simp add: demo_final_def)
qed

lemma quad_keep: "intersect1d [3, 0, 2, 2] (where_below_128 (concat quad_mask)) = [0, 2]"
  by (simp add: intersect1d_def unique_def adjacent_equal_def where_below_128_def quad_mask_def)

theorem accumulate_grows_by_intersection_witness:
  "frame_n (demo_state 3 (Some [quad_mask])) mod 10 \<noteq> 0
   \<and> mask_video (demo_state 3 (Some [quad_mask])) = Some (quad_mask # [])
   \<and> length (vertex_colors quad_mesh) = length (vertices quad_mesh)
   \<and> intersect1d [3, 0, 2, 2] (where_below_128 (concat quad_mask)) = [0, 2]
   \<and> (\<exists>st'. accumulate demo_collaborators quad_mesh [3, 0, 2, 2] (demo_state 3 (Some [quad_mask]))
              = Inr st'
          \<and> bg_points st' = [(0, 0, 1), (0, 1, 1)]
          \<and> length (bg_points st') = length (bg_points (demo_state 3 (Some [quad_mask]))) + 2)"
proof -
  have a: "frame_n (demo_state 3 (Some [quad_mask])) mod 10 \<noteq> 0"
    by (simp add: demo_state_def)
  have b: "mask_video (demo_state 3 (Some [quad_mask])) = Some (quad_mask # [])"
    by (simp add: demo_state_def)
  have c: "\<forall>i\<in>set [3, 0, 2, 2]. i < int (length (vertices quad_mesh))"
    by (simp add: quad_mesh_def)
  have d: "length (vertex_colors quad_mesh) = length (vertices quad_mesh)"
    by (simp add: quad_mesh_def)
  from accumulate_grows_by_intersection [OF a b c d, of demo_collaborators]
  obtain st' where
    acc: "accumulate demo_collaborators quad_mesh [3, 0, 2, 2] (demo_state 3 (Some [quad_mask]))
            = Inr st'"
    by blast
  have "accumulate demo_collaborators quad_mesh [3, 0, 2, 2] (demo_state 3 (Some [quad_mask]))
          = Inr (append_background demo_collaborators [(0, 0, 1), (0, 1, 1)] [(1, 0, 0), (0, 0, 1)]
                   ((demo_state 3 (Some [quad_mask]))\<lparr>mask_video := Some []\<rparr>))"
    by (simp add: accumulate_no_trigger [OF a b c d] quad_keep) (simp add: quad_mesh_def)
  then have "bg_points st' = [(0, 0, 1), (0, 1, 1)]"
    using acc by (auto simp: append_background_def demo_state_def)
  then show ?thesis
    using a b d acc quad_keep by (simp add: demo_state_def)
qed

lemma touchly1_run:
  "run touchly1_config demo_collaborators [demo_frame, demo_frame]
     (demo_state 0 (Some [demo_mask, demo_mask])) = Inr touchly1_final"
  by (simp add: touchly1_config_def demo_config_def demo_state_def touchly1_final_def
      process_frame_def read_color_frame_def demo_decode fast_path_def fast_touchly_depth_def
      depth_to_8bit_def rint_def f64_to_u8_def trunc_def grey_def vconcat_def width_def
      write_frame_def frame_limit_reached_def Let_def)
     (simp add: demo_frame_def)

theorem touchly1_fast_path_leaves_background_witness:
  "touchly1 touchly1_config \<and> transformations touchly1_config = None
   \<and> run touchly1_config demo_collaborators [demo_frame, demo_frame]
        (demo_state 0 (Some [demo_mask, demo_mask])) = Inr touchly1_final
   \<and> mask_video touchly1_final = Some [demo_mask, demo_mask]
   \<and> bg_points touchly1_final = []
   \<and> length (out touchly1_final) = 2"
proof -
  have a: "touchly1 touchly1_config" and b: "transformations touchly1_config = None"
    by (simp_all add: touchly1_config_def demo_config_def)
  from touchly1_fast_path_leaves_background [OF a b touchly1_run]
  have "mask_video touchly1_final = mask_video (demo_state 0 (Some [demo_mask, demo_mask]))"
    and "bg_points touchly1_final = bg_points (demo_state 0 (Some [demo_mask, demo_mask]))"
    by simp_all
  then show ?thesis
    using a b touchly1_run by (simp add: demo_state_def touchly1_final_def)
qed

section \<open>The stereo path and the pose of the scene (lines 341--365)\<close>

text \<open>
  \<^verbatim>\<open>
  mesh.translate([-left_shift, 0.0, 0.0])     # left eye render
  ...
  mesh.translate([left_shift, 0.0, 0.0])      # Move mesh back to center
  mesh.translate([-right_shift, 0.0, 0.0])    # right eye render
  \<close>
  The shift for the left eye is undone before the shift for the right eye; the shift for
  the right eye is not undone.
\<close>

lemma translate_translate:
  "translate (a, 0, 0) (translate (b, 0, 0) g) = translate (a + b, 0, 0) g"
  by (simp add: translate_def comp_def case_prod_unfold add.commute add.left_commute)

lemma translate_zero: "translate (0, 0, 0) g = g"
  by (simp add: translate_def case_prod_unfold)

lemma stereo_views_scene:
  assumes "stereo_views cfg co mesh = Inr (imgs, mesh')"
  shows "mesh' = translate (- right_shift cfg, 0, 0) mesh"
proof -
  have "mesh' = translate (- right_shift cfg, 0, 0)
                  (translate (left_shift cfg, 0, 0) (translate (- left_shift cfg, 0, 0) mesh))"
    using assms by (auto simp: stereo_views_def Let_def split: sum.splits if_splits)
  then show ?thesis
    by (simp add: translate_translate translate_zero)
qed

text \<open>
  Claim C2, evaluated on the code. With the default pupillary distance of 63 mm, a scene
  with the single point \<open>(0, 0, 1)\<close> leaves the stereo renders with that point at
  \<open>(-0.0315, 0, 1)\<close>: the net translation of the frame is \<open>-right_shift\<close> along x, not zero.
\<close>

theorem stereo_views_leave_scene_shifted:
  "stereo_views stereo_config demo_collaborators demo_mesh
     = Inr ([[[(0, 0, 0)]], [[(0, 0, 0)]]],
            \<lparr>vertices = [(- (63 / 2000), 0, 1)], vertex_colors = [(1, 1, 1)]\<rparr>)
   \<and> vertices demo_mesh = [(0, 0, 1)]"
  by (simp add: stereo_views_def stereo_config_def demo_config_def demo_collaborators_def
      demo_mesh_def translate_def left_shift_def right_shift_def color_to_8bit_def
      f64_to_u8_def trunc_def Let_def)

text \<open>
  The same over the whole loop body, without a mask video: the mesh kept as the hint for
  the next frame is the shifted one.
\<close>

theorem stereo_frame_leaves_mesh_hint_shifted:
  "process_frame stereo_config demo_collaborators demo_frame (demo_state 1 None)
     = Inr (False,
            (demo_state 1 None)
              \<lparr>last_mesh := Some \<lparr>vertices = [(- (63 / 2000), 0, 1)], vertex_colors = [(1, 1, 1)]\<rparr>,
               out := [[[(0, 0, 0), (0, 0, 0)]]]\<rparr>)
   \<and> fst (get_mesh_from_depth_map demo_collaborators [[0]] demo_frame None False)
       = \<lparr>vertices = [(0, 0, 1)], vertex_colors = [(1, 1, 1)]\<rparr>"
  by (simp add: process_frame_def read_color_frame_def demo_decode full_path_def
      transform_to_zero_def render_and_write_def render_stereo_def stereo_views_def hconcat_def
      height_def write_frame_def frame_limit_reached_def stereo_config_def demo_config_def
      demo_collaborators_def demo_mesh_def demo_state_def translate_def left_shift_def
      right_shift_def color_to_8bit_def f64_to_u8_def trunc_def Let_def)

section \<open>Loading and saving the background\<close>

lemma length_reshape: "length (reshape r c data) = r"
  by (simp add: reshape_def)

lemma reshape_nth: "i < r \<Longrightarrow> reshape r c data ! i = take c (drop (i * c) data)"
  by (simp add: reshape_def)

lemma reshape_two:
  assumes "2 \<le> r"
  shows "\<exists>others. reshape r c data = take c data # take c (drop c data) # others"
proof -
  obtain k where r: "r = Suc (Suc k)"
    using assms by (metis Suc_le_D numeral_2_eq_2 Suc_le_mono)
  show ?thesis
    by (simp add: reshape_def r upt_conv_Cons del: upt_Suc)
qed

lemma load_background_numeric:
  "load_background (Numeric r n data) =
     (if length data \<noteq> r * n then Inl ValueError
      else if r < 2 then Inl IndexError
      else Inr (take n data, take n (drop n data)))"
proof (cases "length data = r * n")
  case False
  then show ?thesis
    by (simp add: load_background_def np_load_def)
next
  case len: True
  show ?thesis
  proof (cases "2 \<le> r")
    case True
    then obtain others where "reshape r n data = take n data # take n (drop n data) # others"
      using reshape_two by blast
    then show ?thesis
      using len True by (simp add: load_background_def np_load_def)
  next
    case False
    then have "r = 0 \<or> r = 1"
      by auto
    then show ?thesis
      using len by (auto simp: load_background_def np_load_def reshape_def)
  qed
qed

lemma load_background_pickled: "load_background (Pickled rows) = Inl ValueError"
  by (simp add: load_background_def np_load_def)

lemma main_load_error:
  assumes "load_background file = Inl e" and "masks \<noteq> None"
  shows "main cfg co (Some file) raw_video color masks = Inl e"
  using assms by (simp add: main_def initial_background_def)

text \<open>
  Claim C4. A file that holds two arrays of different lengths is an object array, and
  loading any object array raises \<^verbatim>\<open>ValueError\<close>. Whenever the load returns points and
  colours, the file is a numeric array of at least two rows whose values fill its shape,
  the two arrays are its first two rows, nothing dropped, and they have the same length.
  Whenever the load raises and a mask video is given (only then is the file read), the
  script ends with that error whatever the videos hold: no frame is read before. Points
  and colours of equal length are saved as one file, and loading that file restores
  exactly the two arrays.
\<close>

theorem mismatched_background_fails_fast:
  fixes pts cols p c :: "vec3 list"
  shows "load_background (Pickled rows :: vec3 npy) = Inl ValueError
   \<and> (masks \<noteq> None \<longrightarrow>
        main cfg co (Some (Pickled rows)) raw_video color masks = Inl ValueError)
   \<and> (load_background file = Inr (p, c) \<longrightarrow>
        length p = length c
        \<and> (\<exists>r n data. file = Numeric r n data \<and> 2 \<le> r \<and> length data = r * n
               \<and> length p = n \<and> p = take n data \<and> c = take n (drop n data)))
   \<and> (load_background file' = Inl e \<and> masks \<noteq> None \<longrightarrow>
        main cfg co (Some file') raw_video color masks = Inl e)
   \<and> (length pts = length cols \<longrightarrow>
        (\<exists>saved. save_background_array pts cols = Inr saved
           \<and> load_background saved = Inr (pts, cols)))"
proof (intro conjI impI)
  show "load_background (Pickled rows :: vec3 npy) = Inl ValueError"
    by (rule load_background_pickled)
  show "main cfg co (Some (Pickled rows)) raw_video color masks = Inl ValueError"
    if "masks \<noteq> None"
    using main_load_error [OF load_background_pickled that] .
  show "main cfg co (Some file') raw_video color masks = Inl e"
    if "load_background file' = Inl e \<and> masks \<noteq> None"
    using main_load_error that by blast
  show "\<exists>saved. save_background_array pts cols = Inr saved
           \<and> load_background saved = Inr (pts, cols)"
    if "length pts = length cols"
    using that by (simp add: save_background_array_def load_background_numeric)
next
  assume ok: "load_background file = Inr (p, c)"
  then obtain r n data where fl: "file = Numeric r n data"
    by (cases "file") (simp_all add: load_background_pickled)
  from ok have len: "length data = r * n" and r: "2 \<le> r"
    and p: "p = take n data" and c: "c = take n (drop n data)"
    unfolding fl load_background_numeric by (auto split: if_splits)
  obtain k where k: "r = Suc (Suc k)"
    using r by (metis Suc_le_D numeral_2_eq_2 Suc_le_mono)
  have n: "n + n \<le> length data"
    using len by (simp add: k)
  have lp: "length p = n" and lc: "length c = n"
    using n by (simp_all add: p c)
  show "length p = length c"
    using lp lc by simp
  show "\<exists>r n data. file = Numeric r n data \<and> 2 \<le> r \<and> length data = r * n
               \<and> length p = n \<and> p = take n data \<and> c = take n (drop n data)"
    using fl len r lp p c by blast
qed

theorem mismatched_background_fails_fast_witness:
  "load_background ragged_artifact = Inl ValueError
   \<and> Some demo_masks \<noteq> None
   \<and> main demo_config demo_collaborators (Some ragged_artifact) demo_video None (Some demo_masks)
       = Inl ValueError
   \<and> load_background (Numeric 2 2 [(0, 0, 1), (0, 0, 2), (1, 1, 1), (1, 0, 0) :: vec3])
       = Inr ([(0, 0, 1), (0, 0, 2)], [(1, 1, 1), (1, 0, 0)])
   \<and> load_background (Numeric 2 2 [(0, 0, 1), (0, 0, 2), (1, 1, 1) :: vec3]) = Inl ValueError
   \<and> main demo_config demo_collaborators
        (Some (Numeric 2 2 [(0, 0, 1), (0, 0, 2), (1, 1, 1)])) demo_video None (Some demo_masks)
       = Inl ValueError
   \<and> length [(0, 0, 1), (0, 0, 2) :: vec3] = length [(1, 1, 1), (1, 0, 0) :: vec3]
   \<and> save_background_array [(0, 0, 1), (0, 0, 2) :: vec3] [(1, 1, 1), (1, 0, 0)]
       = Inr (Numeric 2 2 [(0, 0, 1), (0, 0, 2), (1, 1, 1), (1, 0, 0)])"
proof -
  have a: "load_background (Numeric 2 2 [(0, 0, 1), (0, 0, 2), (1, 1, 1), (1, 0, 0) :: vec3])
             = Inr ([(0, 0, 1), (0, 0, 2)], [(1, 1, 1), (1, 0, 0)])"
    by (simp add: load_background_numeric)
  have b: "load_background (Numeric 2 2 [(0, 0, 1), (0, 0, 2), (1, 1, 1) :: vec3]) = Inl ValueError"
    by (simp add: load_background_numeric)
  have s: "save_background_array [(0, 0, 1), (0, 0, 2) :: vec3] [(1, 1, 1), (1, 0, 0)]
             = Inr (Numeric 2 2 [(0, 0, 1), (0, 0, 2), (1, 1, 1), (1, 0, 0)])"
    by (simp add: save_background_array_def)
  from mismatched_background_fails_fast
    [of "[[(0, 0, 1), (0, 0, 2)], [(1, 1, 1)]]" "Some demo_masks" demo_config demo_collaborators
        demo_video None "Numeric 2 2 [(0, 0, 1), (0, 0, 2), (1, 1, 1), (1, 0, 0)]"
        "[(0, 0, 1), (0, 0, 2)]" "[(1, 1, 1), (1, 0, 0)]"
        "Numeric 2 2 [(0, 0, 1), (0, 0, 2), (1, 1, 1)]" ValueError
        "[(0, 0, 1), (0, 0, 2)]" "[(1, 1, 1), (1, 0, 0)]"]
  show ?thesis
    using a b s by (simp add: ragged_artifact_def)
qed

section \<open>Facts about the size and layout of the output frame (lines 246--380)\<close>

lemma compute_render_fov_range:
  "compute_render_fov xfov yfov = Inr f \<Longrightarrow> 75 \<le> f \<and> f < 180"
  by (auto simp: compute_render_fov_def split: option.splits if_splits)

lemma has_size_map_map: "has_size W H img \<Longrightarrow> has_size W H (map (map f) img)"
  by (simp add: has_size_def list_all_iff)

lemma has_size_append:
  "has_size W H a \<Longrightarrow> has_size W H' b \<Longrightarrow> has_size W (H + H') (a @ b)"
  by (simp add: has_size_def)

lemma vconcat_ok:
  assumes "has_size W H a" and "has_size W H' b" and "0 < H" and "0 < H'"
  shows "vconcat a b = Inr (a @ b)"
  using has_size_dims(2) [OF assms(1,3)] has_size_dims(2) [OF assms(2,4)]
  by (simp add: vconcat_def)

lemma foldl_hconcat:
  assumes "has_size W0 H first" and "\<forall>b\<in>set others. has_size W H b"
  shows "has_size (W0 + length others * W) H (foldl (map2 (@)) first others)
         \<and> (\<forall>y<H. foldl (map2 (@)) first others ! y = first ! y @ concat (map (\<lambda>b. b ! y) others))"
  using assms
proof (induction others arbitrary: first W0)
  case Nil
  then show ?case by simp
next
  case (Cons b bs)
  have b: "has_size W H b" and bs: "\<forall>c\<in>set bs. has_size W H c"
    using Cons.prems(2) by simp_all
  have sz: "has_size (W0 + W) H (map2 (@) first b)"
    using Cons.prems(1) b by (auto simp: has_size_def list_all_iff set_zip)
  have row: "map2 (@) first b ! y = first ! y @ b ! y" if "y < H" for y
    using that Cons.prems(1) b by (simp add: has_size_def)
  from Cons.IH [OF sz bs]
  have a: "has_size (W0 + W + length bs * W) H (foldl (map2 (@)) (map2 (@) first b) bs)"
    and r: "\<forall>y<H. foldl (map2 (@)) (map2 (@) first b) bs ! y
                     = map2 (@) first b ! y @ concat (map (\<lambda>c. c ! y) bs)"
    by simp_all
  have eq: "W0 + W + length bs * W = W0 + length (b # bs) * W"
    by simp
  have "has_size (W0 + length (b # bs) * W) H (foldl (map2 (@)) first (b # bs))"
    using a unfolding eq by simp
  moreover have "\<forall>y<H. foldl (map2 (@)) first (b # bs) ! y
                          = first ! y @ concat (map (\<lambda>c. c ! y) (b # bs))"
    using r row by simp
  ultimately show ?case by blast
qed

lemma hconcat_ok:
  assumes "\<forall>b\<in>set bufs. has_size W H b" and "bufs \<noteq> []"
  shows "\<exists>img. hconcat bufs = Inr img \<and> has_size (length bufs * W) H img
           \<and> (\<forall>y<H. img ! y = concat (map (\<lambda>b. b ! y) bufs))"
proof -
  obtain first others where bufs: "bufs = first # others"
    using assms(2) by (cases bufs) auto
  have f: "has_size W H first" and o: "\<forall>b\<in>set others. has_size W H b"
    using assms(1) bufs by simp_all
  have "list_all (\<lambda>img. height img = height first) others"
    using f o by (auto simp: list_all_iff has_size_def height_def)
  then have h: "hconcat bufs = Inr (foldl (map2 (@)) first others)"
    by (simp add: hconcat_def bufs)
  from foldl_hconcat [OF f o] show ?thesis
    using h unfolding bufs by simp
qed

lemma project_all_ok:
  assumes "\<forall>b\<in>set imgs. has_size W H b" and "0 < W" and "0 < H"
  shows "\<exists>ps. project_all fov imgs = Inr ps \<and> length ps = length imgs
           \<and> (\<forall>p\<in>set ps. has_size W H p)
           \<and> ps = map (\<lambda>img. remap img (map_x W H fov) (map_y W H fov)) imgs"
  using assms(1)
proof (induction imgs)
  case Nil
  then show ?case by simp
next
  case (Cons img imgs)
  have i: "has_size W H img" using Cons.prems by simp
  have c: "convert_to_equirectangular img fov = Inr (remap img (map_x W H fov) (map_y W H fov))"
    using has_size_dims [OF i assms(3)] assms(2,3)
    by (simp add: convert_to_equirectangular_def)
  have s: "has_size W H (remap img (map_x W H fov) (map_y W H fov))"
    by (intro has_size_remap has_size_map_x has_size_map_y)
  from Cons.IH Cons.prems obtain ps where "project_all fov imgs = Inr ps"
    "length ps = length imgs" "\<forall>p\<in>set ps. has_size W H p"
    "ps = map (\<lambda>img. remap img (map_x W H fov) (map_y W H fov)) imgs"
    by auto
  then show ?case
    using c s by simp
qed

lemma fast_path_layout:
  assumes "has_size W H color_frame" and "has_size W H depth" and "0 < H"
    and "touchly_max_depth cfg \<noteq> 0"
  shows "\<exists>d. fast_touchly_depth (touchly_max_depth cfg) depth = Inr d \<and> has_size W H d
           \<and> fast_path cfg color_frame depth = Inr (color_frame @ d)
           \<and> has_size W (2 * H) (color_frame @ d)"
proof -
  define d where
    "d = map (map (\<lambda>x. grey (255 - depth_to_8bit (touchly_max_depth cfg) x))) depth"
  have d: "fast_touchly_depth (touchly_max_depth cfg) depth = Inr d"
    using assms(4) by (simp add: fast_touchly_depth_def d_def)
  have sd: "has_size W H d"
    unfolding d_def using assms(2) by (rule has_size_map_map)
  have "fast_path cfg color_frame depth = Inr (color_frame @ d)"
    using vconcat_ok [OF assms(1) sd assms(3,3)] by (simp add: fast_path_def d)
  moreover have "has_size W (2 * H) (color_frame @ d)"
    using has_size_append [OF assms(1) sd] by (simp add: mult_2)
  ultimately show ?thesis
    using d sd by blast
qed

lemma rendered_touchly_depth_ok:
  assumes "has_size W H depth" and "tmd \<noteq> 0"
  shows "\<exists>d. rendered_touchly_depth tmd depth = Inr d \<and> has_size W H d"
  using assms by (simp add: rendered_touchly_depth_def has_size_map_map)

lemma has_size_color_to_8bit: "has_size W H img \<Longrightarrow> has_size W H (color_to_8bit img)"
  unfolding color_to_8bit_def by (rule has_size_map_map)

lemma render_touchly1_layout:
  assumes "has_size W H (fst (render co scene))" and "has_size W H (snd (render co scene))"
    and "0 < H" and "touchly_max_depth cfg \<noteq> 0"
  shows "\<exists>d. rendered_touchly_depth (touchly_max_depth cfg) (snd (render co scene)) = Inr d
           \<and> has_size W H d
           \<and> render_touchly1 cfg co scene = Inr (color_to_8bit (fst (render co scene)) @ d)
           \<and> has_size W (2 * H) (color_to_8bit (fst (render co scene)) @ d)"
proof -
  obtain d where d: "rendered_touchly_depth (touchly_max_depth cfg) (snd (render co scene)) = Inr d"
    and sd: "has_size W H d"
    using rendered_touchly_depth_ok [OF assms(2,4)] by blast
  have sc: "has_size W H (color_to_8bit (fst (render co scene)))"
    using assms(1) by (rule has_size_color_to_8bit)
  have "render_touchly1 cfg co scene = Inr (color_to_8bit (fst (render co scene)) @ d)"
    using vconcat_ok [OF sc sd assms(3,3)] d
    by (simp add: render_touchly1_def case_prod_unfold)
  moreover have "has_size W (2 * H) (color_to_8bit (fst (render co scene)) @ d)"
    using has_size_append [OF sc sd] by (simp add: mult_2)
  ultimately show ?thesis
    using d sd by blast
qed

lemma stereo_views_eq:
  assumes "touchly0 cfg \<longrightarrow>
             rendered_touchly_depth (touchly_max_depth cfg)
               (snd (render co (left_eye_scene cfg scene))) = Inr D"
  shows "stereo_views cfg co scene =
           Inr ([color_to_8bit (fst (render co (left_eye_scene cfg scene))),
                 color_to_8bit (fst (render co (right_eye_scene cfg scene)))]
                @ (if touchly0 cfg then [D] else []),
                right_eye_scene cfg scene)"
  using assms
  by (simp add: stereo_views_def left_eye_scene_def right_eye_scene_def Let_def)

lemma eye_buffer_ok:
  assumes "has_size W H img" and "0 < W" and "0 < H"
  shows "\<exists>b. eye_buffer cfg img = Inr b \<and> has_size W H b"
proof (cases "vr180 cfg")
  case True
  have "convert_to_equirectangular img (render_fov cfg)
          = Inr (remap img (map_x W H (render_fov cfg)) (map_y W H (render_fov cfg)))"
    using has_size_dims [OF assms(1,3)] assms(2,3)
    by (simp add: convert_to_equirectangular_def)
  moreover have "has_size W H (remap img (map_x W H (render_fov cfg)) (map_y W H (render_fov cfg)))"
    by (intro has_size_remap has_size_map_x has_size_map_y)
  ultimately show ?thesis
    using True by (simp add: eye_buffer_def)
next
  case False
  then show ?thesis
    using assms(1) by (simp add: eye_buffer_def)
qed

lemma project_all_eye_buffers:
  assumes "vr180 cfg"
  shows "list_all2 (\<lambda>v b. eye_buffer cfg v = Inr b) views bufs
           \<Longrightarrow> project_all (render_fov cfg) views = Inr bufs"
proof (induction views arbitrary: bufs)
  case Nil
  then show ?case by simp
next
  case (Cons v vs)
  then obtain b bs where bufs: "bufs = b # bs" and b: "eye_buffer cfg v = Inr b"
    and bs: "list_all2 (\<lambda>v b. eye_buffer cfg v = Inr b) vs bs"
    by (auto simp: list_all2_Cons1)
  show ?case
    using b Cons.IH [OF bs] assms by (simp add: bufs eye_buffer_def)
qed

lemma render_stereo_layout:
  assumes "stereo_views cfg co scene = Inr (views, scene')"
    and "list_all2 (\<lambda>v b. eye_buffer cfg v = Inr b) views bufs"
    and "\<forall>b\<in>set bufs. has_size W H b" and "views \<noteq> []"
  shows "\<exists>img. render_stereo cfg co scene = Inr (img, scene')
           \<and> has_size (length views * W) H img
           \<and> (\<forall>y<H. img ! y = concat (map (\<lambda>b. b ! y) bufs))"
proof -
  have len: "length bufs = length views"
    using assms(2) by (simp add: list_all2_lengthD)
  then have ne: "bufs \<noteq> []"
    using assms(4) by auto
  have p: "(if vr180 cfg then project_all (render_fov cfg) views else Inr views) = Inr bufs"
  proof (cases "vr180 cfg")
    case True
    then show ?thesis
      using project_all_eye_buffers [OF True assms(2)] by simp
  next
    case False
    then have "list_all2 (=) views bufs"
      using assms(2) by (simp add: eye_buffer_def)
    then show ?thesis
      using False by (simp add: list_all2_eq)
  qed
  from hconcat_ok [OF assms(3) ne] obtain img where
    "hconcat bufs = Inr img" "has_size (length bufs * W) H img"
    "\<forall>y<H. img ! y = concat (map (\<lambda>b. b ! y) bufs)"
    by blast
  then show ?thesis
    using assms(1) p len by (simp add: render_stereo_def)
qed

lemma render_and_write_stereo:
  assumes "\<not> save_background cfg" and "\<not> touchly1 cfg"
    and "render_stereo cfg co (if mask_video st \<noteq> None then bg_cloud st else mesh)
           = Inr (img, scene')"
  shows "\<exists>stop st'. render_and_write cfg co mesh st = Inr (stop, st') \<and> out st' = out st @ [img]"
  using assms by (auto simp: render_and_write_def write_frame_def Let_def)

lemma render_and_write_touchly1:
  assumes "\<not> save_background cfg" and "touchly1 cfg"
    and "render_touchly1 cfg co (if mask_video st \<noteq> None then bg_cloud st else mesh) = Inr img"
  shows "\<exists>stop st'. render_and_write cfg co mesh st = Inr (stop, st') \<and> out st' = out st @ [img]"
  using assms by (auto simp: render_and_write_def write_frame_def Let_def)

text \<open>
  Claim C7. Let the renders return buffers of \<open>W\<close> by \<open>H\<close> pixels (both positive), the
  Touchly clipping depth be non-zero where a Touchly format is selected, and the frame be
  one that is written. Then the frame
  written has the size that the format selects for the writer: \<open>W\<close> by \<open>2H\<close> for
  Touchly mono+depth, the colour buffer above the depth buffer; \<open>3W\<close> by \<open>H\<close> for Touchly
  3-in-1, every row being the rows of the left colour, right colour and left depth buffers
  in that order; \<open>2W\<close> by \<open>H\<close> for plain and VR180 stereo, every row being the rows of the
  left and right colour buffers. The fast path stacks a colour frame and a depth frame of
  \<open>W\<close> by \<open>H\<close> pixels into \<open>W\<close> by \<open>2H\<close> likewise.
\<close>

theorem output_frame_layout:
  assumes sizes: "\<forall>g. has_size W H (fst (render co g)) \<and> has_size W H (snd (render co g))"
    and W: "0 < W" and H: "0 < H"
    and tmd: "touchly1 cfg \<or> touchly0 cfg \<longrightarrow> touchly_max_depth cfg \<noteq> 0"
    and nosave: "\<not> save_background cfg"
    and scene: "scene = (if mask_video st \<noteq> None then bg_cloud st else mesh)"
  shows "(\<exists>stop st' img.
            render_and_write cfg co mesh st = Inr (stop, st') \<and> out st' = out st @ [img]
            \<and> has_size (fst (out_size cfg W H)) (snd (out_size cfg W H)) img
            \<and> (touchly1 cfg \<longrightarrow>
                 has_size W (2 * H) img
                 \<and> (\<exists>d. rendered_touchly_depth (touchly_max_depth cfg) (snd (render co scene)) = Inr d
                        \<and> has_size W H d
                        \<and> img = color_to_8bit (fst (render co scene)) @ d))
            \<and> (\<not> touchly1 cfg \<longrightarrow>
                 (\<exists>L R. eye_buffer cfg (color_to_8bit (fst (render co (left_eye_scene cfg scene))))
                           = Inr L
                    \<and> eye_buffer cfg (color_to_8bit (fst (render co (right_eye_scene cfg scene))))
                           = Inr R
                    \<and> has_size W H L \<and> has_size W H R
                    \<and> (touchly0 cfg \<longrightarrow>
                         has_size (3 * W) H img
                         \<and> (\<exists>D0 D. rendered_touchly_depth (touchly_max_depth cfg)
                                      (snd (render co (left_eye_scene cfg scene))) = Inr D0
                                \<and> eye_buffer cfg D0 = Inr D \<and> has_size W H D
                                \<and> (\<forall>y<H. img ! y = L ! y @ R ! y @ D ! y)))
                    \<and> (\<not> touchly0 cfg \<longrightarrow>
                         has_size (2 * W) H img \<and> (\<forall>y<H. img ! y = L ! y @ R ! y)))))
         \<and> (\<forall>color_frame depth.
               touchly1 cfg \<and> has_size W H color_frame \<and> has_size W H depth \<longrightarrow>
               (\<exists>d. fast_touchly_depth (touchly_max_depth cfg) depth = Inr d \<and> has_size W H d
                  \<and> fast_path cfg color_frame depth = Inr (color_frame @ d)
                  \<and> has_size W (2 * H) (color_frame @ d)))"
proof (intro conjI allI impI)
  fix color_frame :: "rgb image" and depth :: "real image"
  assume "touchly1 cfg \<and> has_size W H color_frame \<and> has_size W H depth"
  then show "\<exists>d. fast_touchly_depth (touchly_max_depth cfg) depth = Inr d \<and> has_size W H d
                  \<and> fast_path cfg color_frame depth = Inr (color_frame @ d)
                  \<and> has_size W (2 * H) (color_frame @ d)"
    using fast_path_layout [OF _ _ H, of W color_frame depth cfg] tmd by blast
next
  show "\<exists>stop st' img.
            render_and_write cfg co mesh st = Inr (stop, st') \<and> out st' = out st @ [img]
            \<and> has_size (fst (out_size cfg W H)) (snd (out_size cfg W H)) img
            \<and> (touchly1 cfg \<longrightarrow>
                 has_size W (2 * H) img
                 \<and> (\<exists>d. rendered_touchly_depth (touchly_max_depth cfg) (snd (render co scene)) = Inr d
                        \<and> has_size W H d
                        \<and> img = color_to_8bit (fst (render co scene)) @ d))
            \<and> (\<not> touchly1 cfg \<longrightarrow>
                 (\<exists>L R. eye_buffer cfg (color_to_8bit (fst (render co (left_eye_scene cfg scene))))
                           = Inr L
                    \<and> eye_buffer cfg (color_to_8bit (fst (render co (right_eye_scene cfg scene))))
                           = Inr R
                    \<and> has_size W H L \<and> has_size W H R
                    \<and> (touchly0 cfg \<longrightarrow>
                         has_size (3 * W) H img
                         \<and> (\<exists>D0 D. rendered_touchly_depth (touchly_max_depth cfg)
                                      (snd (render co (left_eye_scene cfg scene))) = Inr D0
                                \<and> eye_buffer cfg D0 = Inr D \<and> has_size W H D
                                \<and> (\<forall>y<H. img ! y = L ! y @ R ! y @ D ! y)))
                    \<and> (\<not> touchly0 cfg \<longrightarrow>
                         has_size (2 * W) H img \<and> (\<forall>y<H. img ! y = L ! y @ R ! y))))"
  proof (cases "touchly1 cfg")
    case True
    from render_touchly1_layout [OF _ _ H, of W co scene cfg] sizes tmd True
    obtain d where d: "rendered_touchly_depth (touchly_max_depth cfg) (snd (render co scene)) = Inr d"
      "has_size W H d"
      "render_touchly1 cfg co scene = Inr (color_to_8bit (fst (render co scene)) @ d)"
      "has_size W (2 * H) (color_to_8bit (fst (render co scene)) @ d)"
      by blast
    from render_and_write_touchly1 [OF nosave True d(3) [unfolded scene]]
    obtain stop st' where
      "render_and_write cfg co mesh st = Inr (stop, st')"
      "out st' = out st @ [color_to_8bit (fst (render co scene)) @ d]"
      unfolding scene by blast
    moreover have "has_size (fst (out_size cfg W H)) (snd (out_size cfg W H))
                     (color_to_8bit (fst (render co scene)) @ d)"
      using d(4) True by (simp add: out_size_def mult.commute)
    ultimately show ?thesis
      using True d by blast
  next
    case False
    define L0 where "L0 = color_to_8bit (fst (render co (left_eye_scene cfg scene)))"
    define R0 where "R0 = color_to_8bit (fst (render co (right_eye_scene cfg scene)))"
    have sL0: "has_size W H L0" and sR0: "has_size W H R0"
      using sizes by (simp_all add: L0_def R0_def has_size_color_to_8bit)
    obtain L where L: "eye_buffer cfg L0 = Inr L" "has_size W H L"
      using eye_buffer_ok [OF sL0 W H] by blast
    obtain R where R: "eye_buffer cfg R0 = Inr R" "has_size W H R"
      using eye_buffer_ok [OF sR0 W H] by blast
    have "\<exists>D0 D. touchly0 cfg \<longrightarrow>
            rendered_touchly_depth (touchly_max_depth cfg)
              (snd (render co (left_eye_scene cfg scene))) = Inr D0
            \<and> has_size W H D0 \<and> eye_buffer cfg D0 = Inr D \<and> has_size W H D"
    proof (cases "touchly0 cfg")
      case True
      then obtain D0 where D0: "rendered_touchly_depth (touchly_max_depth cfg)
                                  (snd (render co (left_eye_scene cfg scene))) = Inr D0"
        "has_size W H D0"
        using rendered_touchly_depth_ok [of W H _ "touchly_max_depth cfg"] sizes tmd by blast
      then show ?thesis
        using eye_buffer_ok [OF D0(2) W H] by blast
    next
      case False
      then show ?thesis by simp
    qed
    then obtain D0 D where D: "touchly0 cfg \<longrightarrow>
            rendered_touchly_depth (touchly_max_depth cfg)
              (snd (render co (left_eye_scene cfg scene))) = Inr D0
            \<and> has_size W H D0 \<and> eye_buffer cfg D0 = Inr D \<and> has_size W H D"
      by blast
    define views where "views = [L0, R0] @ (if touchly0 cfg then [D0] else [])"
    define bufs where "bufs = [L, R] @ (if touchly0 cfg then [D] else [])"
    have sv: "stereo_views cfg co scene = Inr (views, right_eye_scene cfg scene)"
      using stereo_views_eq [of cfg co scene D0] D
      by (simp add: views_def L0_def R0_def)
    have la: "list_all2 (\<lambda>v b. eye_buffer cfg v = Inr b) views bufs"
      using L R D by (simp add: views_def bufs_def)
    have sb: "\<forall>b\<in>set bufs. has_size W H b"
      using L R D by (simp add: bufs_def)
    have ne: "views \<noteq> []"
      by (simp add: views_def)
    from render_stereo_layout [OF sv la sb ne] obtain img where
      img: "render_stereo cfg co scene = Inr (img, right_eye_scene cfg scene)"
      "has_size (length views * W) H img"
      "\<forall>y<H. img ! y = concat (map (\<lambda>b. b ! y) bufs)"
      by blast
    from render_and_write_stereo [OF nosave False img(1) [unfolded scene]]
    obtain stop st' where rw: "render_and_write cfg co mesh st = Inr (stop, st')"
      "out st' = out st @ [img]"
      by blast
    have lv: "length views = (if touchly0 cfg then 3 else 2)"
      by (simp add: views_def)
    have sz: "has_size ((if touchly0 cfg then 3 else 2) * W) H img"
      using img(2) unfolding lv .
    have os: "has_size (fst (out_size cfg W H)) (snd (out_size cfg W H)) img"
      using sz False by (cases "touchly0 cfg") (simp_all add: out_size_def mult.commute)
    have t0: "touchly0 cfg \<longrightarrow> has_size (3 * W) H img \<and> (\<forall>y<H. img ! y = L ! y @ R ! y @ D ! y)"
      using sz img(3) by (cases "touchly0 cfg") (simp_all add: bufs_def)
    have t1: "\<not> touchly0 cfg \<longrightarrow> has_size (2 * W) H img \<and> (\<forall>y<H. img ! y = L ! y @ R ! y)"
      using sz img(3) by (cases "touchly0 cfg") (simp_all add: bufs_def)
    show ?thesis
      using rw os t0 t1 L R D False unfolding L0_def R0_def by blast
  qed
qed

lemma stereo_render_and_write:
  "render_and_write stereo_config demo_collaborators demo_mesh (demo_state 1 None)
     = Inr (False,
            (demo_state 1 None)
              \<lparr>last_mesh := Some \<lparr>vertices = [(- (63 / 2000), 0, 1)], vertex_colors = [(1, 1, 1)]\<rparr>,
               out := [[[(0, 0, 0), (0, 0, 0)]]]\<rparr>)"
  by (simp add: render_and_write_def render_stereo_def stereo_views_def hconcat_def
      height_def write_frame_def frame_limit_reached_def stereo_config_def demo_config_def
      demo_collaborators_def demo_mesh_def demo_state_def translate_def left_shift_def
      right_shift_def color_to_8bit_def f64_to_u8_def trunc_def Let_def)

theorem output_frame_layout_witness:
  "(\<forall>g. has_size 1 1 (fst (render demo_collaborators g))
         \<and> has_size 1 1 (snd (render demo_collaborators g)))
   \<and> (0::nat) < 1 \<and> touchly_max_depth stereo_config \<noteq> 0 \<and> \<not> save_background stereo_config
   \<and> out_size stereo_config 1 1 = (2, 1)
   \<and> (\<exists>stop st' img.
         render_and_write stereo_config demo_collaborators demo_mesh (demo_state 1 None)
           = Inr (stop, st')
         \<and> out st' = [img] \<and> img = [[(0, 0, 0), (0, 0, 0)]] \<and> has_size 2 1 img)"
proof -
  have a: "\<forall>g. has_size 1 1 (fst (render demo_collaborators g))
               \<and> has_size 1 1 (snd (render demo_collaborators g))"
    by (simp add: demo_collaborators_def has_size_def)
  have b: "touchly_max_depth stereo_config \<noteq> 0" and c: "\<not> save_background stereo_config"
    by (simp_all add: stereo_config_def demo_config_def)
  have d: "demo_mesh = (if mask_video (demo_state 1 None) \<noteq> None
                        then bg_cloud (demo_state 1 None) else demo_mesh)"
    by (simp add: demo_state_def)
  have e: "out_size stereo_config 1 1 = (2, 1)"
    by (simp add: out_size_def stereo_config_def demo_config_def)
  have b': "touchly1 stereo_config \<or> touchly0 stereo_config
              \<longrightarrow> touchly_max_depth stereo_config \<noteq> 0"
    using b by simp
  from output_frame_layout [OF a _ _ b' c d]
  obtain stop st' img where
    r: "render_and_write stereo_config demo_collaborators demo_mesh (demo_state 1 None)
          = Inr (stop, st')"
    and o: "out st' = out (demo_state 1 None) @ [img]"
    and s: "has_size (fst (out_size stereo_config 1 1)) (snd (out_size stereo_config 1 1)) img"
    by auto
  have "out st' = [[[(0, 0, 0), (0, 0, 0)]]]"
    using r [unfolded stereo_render_and_write] by auto
  then have "img = [[(0, 0, 0), (0, 0, 0)]]"
    using o by (simp add: demo_state_def)
  then show ?thesis
    using a b c e r o s by (auto simp: demo_state_def)
qed

end
